theory Spec2Isabelle
  imports Main "HOL-Library.Sublist" "HOL-Library.AList"
begin

section \<open>JavaScript strings\<close>

text \<open>
  Strings are sequences of code units; the model takes the code units below 256
  (\<^typ>\<open>char\<close>). \<open>String.prototype.toLowerCase\<close> maps \<open>A\<close>..\<open>Z\<close> to
  \<open>a\<close>..\<open>z\<close> and the Latin-1 capital letters (C0..DE without D7) to the
  letter 32 places further; every other code unit below 256 is left alone.
\<close>

definition toLowerChar :: "char \<Rightarrow> char" where
  "toLowerChar c =
     (let n = (of_char c :: nat)
      in if (65 \<le> n \<and> n \<le> 90) \<or> (192 \<le> n \<and> n \<le> 222 \<and> n \<noteq> 215)
         then char_of (n + 32) else c)"

definition toLowerCase :: "string \<Rightarrow> string" where
  "toLowerCase s = map toLowerChar s"

text \<open>\<open>String.prototype.includes\<close>: the pattern occurs at some position.\<close>

fun includes_str :: "string \<Rightarrow> string \<Rightarrow> bool" where
  "includes_str [] pat = (pat = [])"
| "includes_str (c # cs) pat = (prefix pat (c # cs) \<or> includes_str cs pat)"

text \<open>
  \<open>StringIndexOf\<close> as a split: the text before and after the first occurrence of
  the pattern, \<open>None\<close> when there is none.
\<close>

fun splitFirst :: "string \<Rightarrow> string \<Rightarrow> (string \<times> string) option" where
  "splitFirst [] pat = (if pat = [] then Some ([], []) else None)"
| "splitFirst (c # cs) pat =
     (if prefix pat (c # cs) then Some ([], drop (length pat) (c # cs))
      else map_option (\<lambda>(b, a). (c # b, a)) (splitFirst cs pat))"

text \<open>
  \<open>GetSubstitution\<close> for a string pattern (no captures, no named groups): in the
  replacement template \<open>$$\<close> stands for \<open>$\<close>, \<open>$&\<close> for the matched text,
  \<open>$`\<close> for the text before the match and \<open>$'\<close> for the text after it;
  every other \<open>$\<close> is literal.
\<close>

fun getSubstitution :: "string \<Rightarrow> string \<Rightarrow> string \<Rightarrow> string \<Rightarrow> string" where
  "getSubstitution matched preceding following [] = []"
| "getSubstitution matched preceding following [c] = [c]"
| "getSubstitution matched preceding following (c # d # rest) =
     (if c = CHR ''$'' then
        (if d = CHR ''$'' then CHR ''$'' # getSubstitution matched preceding following rest
         else if d = CHR ''&'' then matched @ getSubstitution matched preceding following rest
         else if d = CHR 0x60 then preceding @ getSubstitution matched preceding following rest
         else if d = CHR 0x27 then following @ getSubstitution matched preceding following rest
         else c # getSubstitution matched preceding following (d # rest))
      else c # getSubstitution matched preceding following (d # rest))"

text \<open>\<open>String.prototype.replace\<close> with a string pattern and a string replacement.\<close>

definition replace :: "string \<Rightarrow> string \<Rightarrow> string \<Rightarrow> string" where
  "replace s pat repl =
     (case splitFirst s pat of
        None \<Rightarrow> s
      | Some (preceding, following) \<Rightarrow>
          preceding @ getSubstitution pat preceding following repl @ following)"

section \<open>Command safety filter\<close>

record danger_check =
  dangerous :: bool
  reason :: "string option"

text \<open>\<open>isDangerousCommand\<close> of the tool executor, branch by branch.\<close>

definition isDangerousCommand :: "string \<Rightarrow> danger_check" where
  "isDangerousCommand command =
     (let lowerCmd = toLowerCase command in
      if includes_str lowerCmd ''lsof'' \<and> (includes_str lowerCmd ''kill'' \<or> includes_str lowerCmd ''xargs'')
      then \<lparr>dangerous = True,
            reason = Some ''Cannot use lsof to kill processes - may affect Automaker server''\<rparr>
      else if includes_str lowerCmd ''kill -9'' \<or> includes_str lowerCmd ''kill -KILL''
      then \<lparr>dangerous = True,
            reason = Some ''Cannot use kill -9 - use gentler termination methods''\<rparr>
      else if (includes_str lowerCmd ''pkill'' \<or> includes_str lowerCmd ''killall'')
              \<and> \<not> includes_str lowerCmd ''next'' \<and> \<not> includes_str lowerCmd ''node''
              \<and> (includes_str lowerCmd ''pkill -f'' \<or> includes_str lowerCmd ''killall'')
      then \<lparr>dangerous = True,
            reason = Some ''Cannot use broad kill commands - be more specific''\<rparr>
      else if includes_str lowerCmd ''rm -rf /'' \<and> \<not> includes_str lowerCmd ''rm -rf /.''
      then \<lparr>dangerous = True, reason = Some ''Cannot remove root directory''\<rparr>
      else if includes_str lowerCmd ''npm run dev'' \<and> includes_str lowerCmd ''&''
      then \<lparr>dangerous = True,
            reason = Some ''Cannot start background dev servers - use Automaker dev server feature instead''\<rparr>
      else if (includes_str lowerCmd ''npm start'' \<or> includes_str lowerCmd ''npm run start'')
              \<and> includes_str lowerCmd ''&''
      then \<lparr>dangerous = True,
            reason = Some ''Cannot start background servers - use Automaker dev server feature instead''\<rparr>
      else \<lparr>dangerous = False, reason = None\<rparr>)"

text \<open>
  The five rules as the specification words them, for comparison with the code:
  matching is case-insensitive, so both the command and the pattern are lowered.
\<close>

definition containsCI :: "string \<Rightarrow> string \<Rightarrow> bool" where
  "containsCI s pat = includes_str (toLowerCase s) (toLowerCase pat)"

definition spec_rule1 :: "string \<Rightarrow> bool" where
  "spec_rule1 c = (containsCI c ''lsof'' \<and> (containsCI c ''kill'' \<or> containsCI c ''xargs''))"

definition spec_rule2 :: "string \<Rightarrow> bool" where
  "spec_rule2 c = (containsCI c ''kill -9'' \<or> containsCI c ''kill -KILL'')"

definition spec_rule3 :: "string \<Rightarrow> bool" where
  "spec_rule3 c =
     ((containsCI c ''pkill'' \<or> containsCI c ''killall'')
      \<and> \<not> containsCI c ''next'' \<and> \<not> containsCI c ''node''
      \<and> (containsCI c ''pkill -f'' \<or> containsCI c ''killall''))"

definition spec_rule4 :: "string \<Rightarrow> bool" where
  "spec_rule4 c = (containsCI c ''rm -rf /'' \<and> \<not> containsCI c ''rm -rf /.'')"

definition spec_rule5 :: "string \<Rightarrow> bool" where
  "spec_rule5 c =
     ((containsCI c ''npm run dev'' \<or> containsCI c ''npm start'' \<or> containsCI c ''npm run start'')
      \<and> containsCI c ''&'')"

definition spec_dangerous :: "string \<Rightarrow> bool" where
  "spec_dangerous c = (spec_rule1 c \<or> spec_rule2 c \<or> spec_rule3 c \<or> spec_rule4 c \<or> spec_rule5 c)"

section \<open>JavaScript values, exceptions and the host environment\<close>

text \<open>
  The values a tool input can carry. \<open>JOther\<close> stands for every array, object and
  function: truthy, and not a string. Of a number only whether it is zero matters here.
\<close>

datatype jsval = JUndefined | JNull | JBool bool | JNum int | JStr string | JOther

fun truthy :: "jsval \<Rightarrow> bool" where
  "truthy JUndefined = False"
| "truthy JNull = False"
| "truthy (JBool b) = b"
| "truthy (JNum n) = (n \<noteq> 0)"
| "truthy (JStr s) = (s \<noteq> [])"
| "truthy JOther = True"

text \<open>The operator \<open>a || b\<close>: the left operand when it is truthy, the right one otherwise.\<close>

definition js_or :: "jsval \<Rightarrow> jsval \<Rightarrow> jsval" where
  "js_or a b = (if truthy a then a else b)"

text \<open>
  A thrown value: an \<open>Error\<close> instance with its message; one whose \<open>name\<close> is
  \<open>AbortError\<close>; \<open>null\<close>; \<open>undefined\<close>; or any other value, for which
  \<open>error instanceof Error\<close> is false, with the text of its \<open>message\<close> property
  (empty when it has none, or a falsy one).
\<close>

datatype exn = JsError string | JsAbortError string | JsThrown string | JsNull | JsUndefined

text \<open>\<open>error instanceof Error ? error.message : d\<close>\<close>

fun error_message_or :: "exn \<Rightarrow> string \<Rightarrow> string" where
  "error_message_or (JsError m) d = m"
| "error_message_or (JsAbortError m) d = m"
| "error_message_or (JsThrown m) d = d"
| "error_message_or JsNull d = d"
| "error_message_or JsUndefined d = d"

text \<open>\<open>error?.message\<close> inside a template literal, the empty text for \<open>undefined\<close>.\<close>

fun message_of :: "exn \<Rightarrow> string" where
  "message_of (JsError m) = m"
| "message_of (JsAbortError m) = m"
| "message_of (JsThrown m) = m"
| "message_of JsNull = []"
| "message_of JsUndefined = []"

text \<open>The \<open>TypeError\<close>s the runtime raises; their wording is the engine's.\<close>

datatype type_error =
    NullRead string
  | UndefinedRead string
  | BadPathArg jsval
  | NotAFunction jsval
  | BadData jsval

text \<open>
  A tool input is what \<open>JSON.parse\<close> returned: \<open>Nullish\<close> for \<open>null\<close>, on
  which every property read throws, and otherwise the function from property names to
  values (\<open>JUndefined\<close> for an absent property).
\<close>

datatype tool_input = Nullish | Props "string \<Rightarrow> jsval"

definition obj :: "(string \<times> jsval) list \<Rightarrow> tool_input" where
  "obj kvs = Props (\<lambda>k. case map_of kvs k of None \<Rightarrow> JUndefined | Some v \<Rightarrow> v)"

record ToolResult =
  tr_success :: bool
  tr_output :: string
  tr_error :: "string option"

record exec_opts =
  opt_cwd :: "string option"
  opt_timeout :: "nat option"
  opt_maxBuffer :: nat
  opt_shell :: "string option"
  opt_homebrew_path :: bool

text \<open>What \<open>execSync\<close> throws: an \<open>Error\<close> carrying the captured streams.\<close>

record exec_failure =
  ef_stdout :: string
  ef_stderr :: string
  ef_message :: string
  ef_killed :: bool

text \<open>
  How a remote tool call ends within the call timeout of 60 seconds: it resolves with
  content blocks (\<open>type\<close>, \<open>text\<close>; \<open>None\<close> when the result has no
  \<open>content\<close>), it rejects, or the timer wins the race.
\<close>

datatype call_outcome =
    CallResolved "(string \<times> jsval) list option"
  | CallRejected exn
  | CallTimedOut

text \<open>The file system as the tools see it: readable files and existing directories.\<close>

record world =
  files :: "string \<rightharpoonup> string"
  dirs :: "string set"

text \<open>
  The library functions and the parts of the outside world the executor calls:
  \<open>path\<close>, the failure modes of \<open>fs\<close>, \<open>child_process.execSync\<close>, the
  wording of runtime errors, and the text that a member of \<open>Object.prototype\<close> turns
  into when it is concatenated with a string (\<open>inherited_text\<close>, by member name).
\<close>

record node_env =
  isAbsolute :: "string \<Rightarrow> bool"
  join :: "string \<Rightarrow> string \<Rightarrow> string"
  dirname :: "string \<Rightarrow> string"
  ancestors :: "string \<Rightarrow> string set"
  type_error_msg :: "type_error \<Rightarrow> string"
  to_string :: "jsval \<Rightarrow> string"
  inherited_text :: "string \<Rightarrow> string"
  read_error :: "string \<Rightarrow> exn"
  write_error :: "string \<Rightarrow> exn option"
  mkdir_error :: "string \<Rightarrow> exn option"
  readdir :: "world \<Rightarrow> string \<Rightarrow> exn + (string \<times> bool) list"
  execSync :: "string \<Rightarrow> exec_opts \<Rightarrow> world \<Rightarrow> (exec_failure + string) \<times> world"
  callRemote :: "string \<Rightarrow> string \<Rightarrow> tool_input \<Rightarrow> world \<Rightarrow> call_outcome \<times> world"

definition throw_type_error :: "node_env \<Rightarrow> type_error \<Rightarrow> exn + 'a" where
  "throw_type_error env e = Inl (JsError (type_error_msg env e))"

text \<open>
  A property read \<open>e.k\<close> on a caught value: the \<open>TypeError\<close> it throws when the
  value is \<open>null\<close> or \<open>undefined\<close>, and \<open>None\<close> when the read goes through.
\<close>

definition readCaught :: "node_env \<Rightarrow> exn \<Rightarrow> string \<Rightarrow> exn option" where
  "readCaught env e k =
     (case e of
        JsNull \<Rightarrow> Some (JsError (type_error_msg env (NullRead k)))
      | JsUndefined \<Rightarrow> Some (JsError (type_error_msg env (UndefinedRead k)))
      | _ \<Rightarrow> None)"

text \<open>A property read \<open>input.k\<close>.\<close>

definition getProp :: "node_env \<Rightarrow> tool_input \<Rightarrow> string \<Rightarrow> exn + jsval" where
  "getProp env inp k =
     (case inp of Nullish \<Rightarrow> throw_type_error env (NullRead k) | Props f \<Rightarrow> Inr (f k))"

text \<open>
  \<open>input.a || input.b || input.c\<close>: the properties are read left to right, the first
  read throws on \<open>null\<close>, and the last operand is the result when none is truthy.
\<close>

definition alias3 :: "node_env \<Rightarrow> tool_input \<Rightarrow> string \<Rightarrow> string \<Rightarrow> string \<Rightarrow> exn + jsval" where
  "alias3 env inp a b c =
     (case inp of
        Nullish \<Rightarrow> throw_type_error env (NullRead a)
      | Props f \<Rightarrow> Inr (js_or (js_or (f a) (f b)) (f c)))"

definition alias2 :: "node_env \<Rightarrow> tool_input \<Rightarrow> string \<Rightarrow> string \<Rightarrow> exn + jsval" where
  "alias2 env inp a b =
     (case inp of
        Nullish \<Rightarrow> throw_type_error env (NullRead a)
      | Props f \<Rightarrow> Inr (js_or (f a) (f b)))"

text \<open>\<open>input.a || input.b || '.'\<close>\<close>

definition alias2_dot :: "node_env \<Rightarrow> tool_input \<Rightarrow> string \<Rightarrow> string \<Rightarrow> exn + jsval" where
  "alias2_dot env inp a b =
     (case inp of
        Nullish \<Rightarrow> throw_type_error env (NullRead a)
      | Props f \<Rightarrow> Inr (js_or (js_or (f a) (f b)) (JStr ''.'')))"

text \<open>
  \<open>path.isAbsolute(p) ? p : path.join(cwd, p)\<close>; \<open>path.isAbsolute\<close> throws a
  \<open>TypeError\<close> on anything but a string.
\<close>

definition resolvePath :: "node_env \<Rightarrow> string \<Rightarrow> jsval \<Rightarrow> exn + string" where
  "resolvePath env cwd v =
     (case v of
        JStr p \<Rightarrow> Inr (if isAbsolute env p then p else join env cwd p)
      | _ \<Rightarrow> throw_type_error env (BadPathArg v))"

definition readFileSync :: "node_env \<Rightarrow> world \<Rightarrow> string \<Rightarrow> exn + string" where
  "readFileSync env w p = (case files w p of None \<Rightarrow> Inl (read_error env p) | Some c \<Rightarrow> Inr c)"

text \<open>\<open>fs.writeFileSync(p, data, 'utf-8')\<close>: data that is not a string is rejected.\<close>

definition writeFileSync :: "node_env \<Rightarrow> world \<Rightarrow> string \<Rightarrow> jsval \<Rightarrow> exn + world" where
  "writeFileSync env w p v =
     (case v of
        JStr s \<Rightarrow>
          (case write_error env p of
             Some e \<Rightarrow> Inl e
           | None \<Rightarrow> Inr (w\<lparr>files := (files w)(p \<mapsto> s)\<rparr>))
      | _ \<Rightarrow> throw_type_error env (BadData v))"

definition existsSync :: "world \<Rightarrow> string \<Rightarrow> bool" where
  "existsSync w p = (p \<in> dirs w \<or> files w p \<noteq> None)"

text \<open>\<open>fs.mkdirSync(dir, {recursive: true})\<close>\<close>

definition mkdirSync :: "node_env \<Rightarrow> world \<Rightarrow> string \<Rightarrow> exn + world" where
  "mkdirSync env w d =
     (case mkdir_error env d of
        Some e \<Rightarrow> Inl e
      | None \<Rightarrow> Inr (w\<lparr>dirs := dirs w \<union> insert d (ancestors env d)\<rparr>))"

definition failure :: "string \<Rightarrow> ToolResult" where
  "failure msg = \<lparr>tr_success = False, tr_output = [], tr_error = Some msg\<rparr>"

definition ok :: "string \<Rightarrow> ToolResult" where
  "ok out = \<lparr>tr_success = True, tr_output = out, tr_error = None\<rparr>"

section \<open>Built-in tool executor\<close>

text \<open>
  Every executor returns what the \<open>async\<close> function settles with (\<open>Inl\<close>: it
  rejects) together with the file system it leaves behind.
\<close>

type_synonym tool_outcome = "(exn + ToolResult) \<times> world"

text \<open>A value inside a template literal or passed where a string is expected.\<close>

definition template :: "node_env \<Rightarrow> jsval \<Rightarrow> string" where
  "template env v = (case v of JStr s \<Rightarrow> s | _ \<Rightarrow> to_string env v)"

definition executeRead :: "node_env \<Rightarrow> tool_input \<Rightarrow> string \<Rightarrow> world \<Rightarrow> tool_outcome" where
  "executeRead env inp cwd w =
     (case alias3 env inp ''file_path'' ''path'' ''file'' of
        Inl e \<Rightarrow> (Inl e, w)
      | Inr filePath \<Rightarrow>
          if \<not> truthy filePath then (Inr (failure ''file_path is required''), w)
          else
            (case resolvePath env cwd filePath of
               Inl e \<Rightarrow> (Inl e, w)
             | Inr fullPath \<Rightarrow>
                 (case readFileSync env w fullPath of
                    Inr content \<Rightarrow> (Inr (ok content), w)
                  | Inl e \<Rightarrow>
                      (Inr (failure (''Failed to read file: '' @ error_message_or e ''Unknown error'')),
                       w))))"

definition executeWrite :: "node_env \<Rightarrow> tool_input \<Rightarrow> string \<Rightarrow> world \<Rightarrow> tool_outcome" where
  "executeWrite env inp cwd w =
     (case alias3 env inp ''file_path'' ''path'' ''file'' of
        Inl e \<Rightarrow> (Inl e, w)
      | Inr filePath \<Rightarrow>
     (case alias3 env inp ''content'' ''text'' ''data'' of
        Inl e \<Rightarrow> (Inl e, w)
      | Inr content \<Rightarrow>
          if \<not> truthy filePath then (Inr (failure ''file_path is required''), w)
          else if content = JUndefined then (Inr (failure ''content is required''), w)
          else
            (case resolvePath env cwd filePath of
               Inl e \<Rightarrow> (Inl e, w)
             | Inr fullPath \<Rightarrow>
                 (let dir = dirname env fullPath in
                  case (if \<not> existsSync w dir then mkdirSync env w dir else Inr w) of
                    Inl e \<Rightarrow>
                      (Inr (failure (''Failed to write file: '' @ error_message_or e ''Unknown error'')),
                       w)
                  | Inr w1 \<Rightarrow>
                      (case writeFileSync env w1 fullPath content of
                         Inl e \<Rightarrow>
                           (Inr (failure (''Failed to write file: ''
                                          @ error_message_or e ''Unknown error'')), w1)
                       | Inr w2 \<Rightarrow>
                           (Inr (ok (''Successfully wrote to '' @ template env filePath)), w2))))))"

definition executeEdit :: "node_env \<Rightarrow> tool_input \<Rightarrow> string \<Rightarrow> world \<Rightarrow> tool_outcome" where
  "executeEdit env inp cwd w =
     (case alias3 env inp ''file_path'' ''path'' ''file'' of
        Inl e \<Rightarrow> (Inl e, w)
      | Inr filePath \<Rightarrow>
     (case alias3 env inp ''old_string'' ''old'' ''find'' of
        Inl e \<Rightarrow> (Inl e, w)
      | Inr oldStr \<Rightarrow>
     (case alias3 env inp ''new_string'' ''new'' ''replace'' of
        Inl e \<Rightarrow> (Inl e, w)
      | Inr newStr \<Rightarrow>
          if \<not> truthy filePath then (Inr (failure ''file_path is required''), w)
          else if oldStr = JUndefined then (Inr (failure ''old_string is required''), w)
          else if newStr = JUndefined then (Inr (failure ''new_string is required''), w)
          else
            (case resolvePath env cwd filePath of
               Inl e \<Rightarrow> (Inl e, w)
             | Inr fullPath \<Rightarrow>
                 (case readFileSync env w fullPath of
                    Inl e \<Rightarrow>
                      (Inr (failure (''Failed to edit file: '' @ error_message_or e ''Unknown error'')),
                       w)
                  | Inr content \<Rightarrow>
                      if \<not> includes_str content (template env oldStr)
                      then (Inr (failure
                        ''Could not find the specified text in the file. Make sure old_string matches exactly.''),
                        w)
                      else
                        (case writeFileSync env w fullPath
                                (JStr (replace content (template env oldStr) (template env newStr))) of
                           Inl e \<Rightarrow>
                             (Inr (failure (''Failed to edit file: ''
                                            @ error_message_or e ''Unknown error'')), w)
                         | Inr w1 \<Rightarrow>
                             (Inr (ok (''Successfully edited '' @ template env filePath)), w1)))))))"

text \<open>
  \<open>String.prototype.trim\<close>: white space and line terminators among the code units
  below 256 are tab, line feed, vertical tab, form feed, carriage return, space and the
  no-break space.
\<close>

definition is_space :: "char \<Rightarrow> bool" where
  "is_space c = ((of_char c :: nat) \<in> {9, 10, 11, 12, 13, 32, 160})"

definition trim :: "string \<Rightarrow> string" where
  "trim s = rev (dropWhile is_space (rev (dropWhile is_space s)))"

text \<open>\<open>Array.prototype.join\<close>\<close>

fun join_with :: "string \<Rightarrow> string list \<Rightarrow> string" where
  "join_with sep [] = []"
| "join_with sep [x] = x"
| "join_with sep (x # y # ys) = x @ sep @ join_with sep (y # ys)"

text \<open>The double quote character, as a string.\<close>

definition dq :: string where
  "dq = [CHR 0x22]"

text \<open>\<open>s || d\<close> on strings.\<close>

definition str_or :: "string \<Rightarrow> string \<Rightarrow> string" where
  "str_or s d = (if s \<noteq> [] then s else d)"

text \<open>The options and the command lines handed to \<open>execSync\<close>.\<close>

definition bashOptions :: "string \<Rightarrow> exec_opts" where
  "bashOptions cwd =
     \<lparr>opt_cwd = Some cwd, opt_timeout = Some 30000, opt_maxBuffer = 10 * 1024 * 1024,
      opt_shell = Some ''/bin/zsh'', opt_homebrew_path = True\<rparr>"

definition globCommand :: "node_env \<Rightarrow> jsval \<Rightarrow> string" where
  "globCommand env pattern =
     ''find . -name '' @ dq @ template env pattern @ dq @ '' -type f 2>/dev/null | head -100''"

definition globOptions :: "string \<Rightarrow> exec_opts" where
  "globOptions cwd =
     \<lparr>opt_cwd = Some cwd, opt_timeout = None, opt_maxBuffer = 10 * 1024 * 1024,
      opt_shell = None, opt_homebrew_path = False\<rparr>"

definition grepCommand :: "node_env \<Rightarrow> jsval \<Rightarrow> string \<Rightarrow> string" where
  "grepCommand env pattern fullPath =
     ''grep -r -n '' @ dq @ template env pattern @ dq @ '' '' @ dq @ fullPath @ dq
     @ '' 2>/dev/null || true''"

definition grepOptions :: exec_opts where
  "grepOptions =
     \<lparr>opt_cwd = None, opt_timeout = None, opt_maxBuffer = 10 * 1024 * 1024,
      opt_shell = None, opt_homebrew_path = False\<rparr>"

definition executeBash :: "node_env \<Rightarrow> tool_input \<Rightarrow> string \<Rightarrow> world \<Rightarrow> tool_outcome" where
  "executeBash env inp cwd w =
     (case alias2 env inp ''command'' ''cmd'' of
        Inl e \<Rightarrow> (Inl e, w)
      | Inr command \<Rightarrow>
          if \<not> truthy command then (Inr (failure ''command is required''), w)
          else
            (case command of
               JStr cmd \<Rightarrow>
                 (let dangerCheck = isDangerousCommand cmd in
                  if dangerous dangerCheck
                  then (Inr (failure (case reason dangerCheck of
                                        None \<Rightarrow> ''Command blocked for safety''
                                      | Some r \<Rightarrow> str_or r ''Command blocked for safety'')), w)
                  else
                    (case execSync env cmd (bashOptions cwd) w of
                       (Inr out, w1) \<Rightarrow> (Inr (ok (trim out)), w1)
                     | (Inl execError, w1) \<Rightarrow>
                         if ef_killed execError
                         then (Inr \<lparr>tr_success = False, tr_output = ef_stdout execError,
                                    tr_error = Some ''Command timed out after 30 seconds''\<rparr>, w1)
                         else (Inr \<lparr>tr_success = False, tr_output = ef_stdout execError,
                                    tr_error = Some (str_or (ef_stderr execError)
                                                 (str_or (ef_message execError) ''Command failed''))\<rparr>,
                               w1)))
             | _ \<Rightarrow> (throw_type_error env (NotAFunction command), w)))"

definition executeGlob :: "node_env \<Rightarrow> tool_input \<Rightarrow> string \<Rightarrow> world \<Rightarrow> tool_outcome" where
  "executeGlob env inp cwd w =
     (case alias2 env inp ''pattern'' ''glob'' of
        Inl e \<Rightarrow> (Inl e, w)
      | Inr pattern \<Rightarrow>
          if \<not> truthy pattern then (Inr (failure ''pattern is required''), w)
          else
            (case execSync env (globCommand env pattern) (globOptions cwd) w of
               (Inr out, w1) \<Rightarrow> (Inr (ok (str_or (trim out) ''No files found'')), w1)
             | (Inl execError, w1) \<Rightarrow>
                 (Inr (failure (''Glob failed: '' @ ef_message execError)), w1)))"

definition executeGrep :: "node_env \<Rightarrow> tool_input \<Rightarrow> string \<Rightarrow> world \<Rightarrow> tool_outcome" where
  "executeGrep env inp cwd w =
     (case alias3 env inp ''pattern'' ''query'' ''search'' of
        Inl e \<Rightarrow> (Inl e, w)
      | Inr pattern \<Rightarrow>
     (case alias2_dot env inp ''path'' ''directory'' of
        Inl e \<Rightarrow> (Inl e, w)
      | Inr searchPath \<Rightarrow>
          if \<not> truthy pattern then (Inr (failure ''pattern is required''), w)
          else
            (case resolvePath env cwd searchPath of
               Inl e \<Rightarrow>
                 (Inr (failure (''Grep failed: '' @ error_message_or e ''Unknown error'')), w)
             | Inr fullPath \<Rightarrow>
                 (case execSync env (grepCommand env pattern fullPath) grepOptions w of
                    (Inr out, w1) \<Rightarrow> (Inr (ok (str_or (trim out) ''No matches found'')), w1)
                  | (Inl execError, w1) \<Rightarrow>
                      (Inr (failure (''Grep failed: '' @ ef_message execError)), w1)))))"

definition executeList :: "node_env \<Rightarrow> tool_input \<Rightarrow> string \<Rightarrow> world \<Rightarrow> tool_outcome" where
  "executeList env inp cwd w =
     (case alias2_dot env inp ''path'' ''directory'' of
        Inl e \<Rightarrow> (Inl e, w)
      | Inr dirPath \<Rightarrow>
          (case resolvePath env cwd dirPath of
             Inl e \<Rightarrow> (Inl e, w)
           | Inr fullPath \<Rightarrow>
               (case readdir env w fullPath of
                  Inr entries \<Rightarrow>
                    (Inr (ok (join_with [CHR 0x0A]
                       (map (\<lambda>(name, isDirectory).
                               (if isDirectory then ''[DIR]'' else ''[FILE]'') @ '' '' @ name)
                            entries))), w)
                | Inl e \<Rightarrow>
                    (Inr (failure (''Failed to list directory: ''
                                   @ error_message_or e ''Unknown error'')), w))))"

section \<open>Plugin connection manager: catalog and calls\<close>

record mcp_tool =
  tool_name :: string
  tool_description :: "string option"

datatype transport =
    StdioTransport string "string list" "string \<rightharpoonup> string"
  | SSETransport string
  | HTTPTransport string

text \<open>
  A connection: the transport and the tools the server listed (the client object is
  identified by the server name). The \<open>Map\<close> of connections keeps insertion order,
  so it is an association list; \<open>Map.set\<close> is \<^const>\<open>AList.update\<close> and
  \<open>Map.delete\<close> is \<^const>\<open>AList.delete\<close>.
\<close>

record MCPConnection =
  transport :: transport
  tools :: "mcp_tool list"

type_synonym connections = "(string \<times> MCPConnection) list"

definition getAllTools :: "connections \<Rightarrow> (string \<times> mcp_tool) list" where
  "getAllTools conns = concat (map (\<lambda>(serverName, c). map (\<lambda>t. (serverName, t)) (tools c)) conns)"

definition isMcpTool :: "connections \<Rightarrow> string \<Rightarrow> bool" where
  "isMcpTool conns toolName =
     list_ex (\<lambda>(serverName, c). list_ex (\<lambda>t. tool_name t = toolName) (tools c)) conns"

definition findServerForTool :: "connections \<Rightarrow> string \<Rightarrow> string option" where
  "findServerForTool conns toolName =
     map_option fst
       (find (\<lambda>(serverName, c). list_ex (\<lambda>t. tool_name t = toolName) (tools c)) conns)"

definition is_text_block :: "string \<times> jsval \<Rightarrow> bool" where
  "is_text_block b = (fst b = ''text'' \<and> (case snd b of JStr s \<Rightarrow> True | _ \<Rightarrow> False))"

definition block_text :: "string \<times> jsval \<Rightarrow> string" where
  "block_text b = (case snd b of JStr s \<Rightarrow> s | _ \<Rightarrow> [])"

text \<open>
  \<open>callTool\<close>; the test \<open>!serverName\<close> also holds for a server registered under the
  empty name.
\<close>

definition callTool ::
  "node_env \<Rightarrow> connections \<Rightarrow> string \<Rightarrow> tool_input \<Rightarrow> world \<Rightarrow> tool_outcome" where
  "callTool env conns toolName args w =
     (case findServerForTool conns toolName of
        None \<Rightarrow> (Inr (failure (''Tool '' @ dq @ toolName @ dq @ '' not found in any MCP server'')), w)
      | Some serverName \<Rightarrow>
          if serverName = []
          then (Inr (failure (''Tool '' @ dq @ toolName @ dq @ '' not found in any MCP server'')), w)
          else
          (case map_of conns serverName of
             None \<Rightarrow> (Inr (failure (''MCP server '' @ dq @ serverName @ dq @ '' not connected'')), w)
           | Some connection \<Rightarrow>
               (case callRemote env serverName toolName args w of
                  (CallResolved content, w1) \<Rightarrow>
                    (Inr (ok (join_with [CHR 0x0A]
                       (map block_text
                          (filter is_text_block (case content of None \<Rightarrow> [] | Some bs \<Rightarrow> bs))))),
                     w1)
                | (CallRejected e, w1) \<Rightarrow>
                    (Inr (failure (error_message_or e ''Unknown error'')), w1)
                | (CallTimedOut, w1) \<Rightarrow>
                    (Inr (failure (''Tool call '' @ toolName @ '' timed out'')), w1))))"

section \<open>Plugin connection manager: connecting\<close>

record MCPServerConfig =
  cfg_type :: "string option"
  cfg_url :: "string option"
  cfg_command :: "string option"
  cfg_args :: "string list option"
  cfg_env :: "(string \<times> string) list option"

text \<open>
  A promise raced against a timer: it resolves, it rejects, or the timer wins.
\<close>

datatype 'a raced = Resolved 'a | Rejected exn | TimedOut

text \<open>
  What the manager meets outside: the process environment, which URLs the \<open>URL\<close>
  constructor rejects, and how each server answers \<open>client.connect\<close> and
  \<open>client.listTools\<close> (one behaviour per server name).
\<close>

record mcp_env =
  process_env :: "string \<rightharpoonup> string"
  url_error :: "string \<Rightarrow> exn option"
  server_connect :: "string \<Rightarrow> transport \<Rightarrow> unit raced"
  server_listTools :: "string \<Rightarrow> mcp_tool list option raced"

definition CONNECTION_TIMEOUT :: nat where
  "CONNECTION_TIMEOUT = 30000"

definition CALL_TIMEOUT :: nat where
  "CALL_TIMEOUT = 60000"

text \<open>\<open>!config.url\<close>, \<open>!config.command\<close>: absent or empty.\<close>

definition falsy_str :: "string option \<Rightarrow> bool" where
  "falsy_str v = (case v of None \<Rightarrow> True | Some s \<Rightarrow> s = [])"

definition new_URL :: "mcp_env \<Rightarrow> string \<Rightarrow> exn + string" where
  "new_URL env u = (case url_error env u of Some e \<Rightarrow> Inl e | None \<Rightarrow> Inr u)"

definition createTransport :: "mcp_env \<Rightarrow> MCPServerConfig \<Rightarrow> exn + transport" where
  "createTransport env config =
     (if cfg_type config = Some ''sse'' then
        (if falsy_str (cfg_url config) then Inl (JsError ''SSE server requires URL'')
         else (case new_URL env (the (cfg_url config)) of
                 Inl e \<Rightarrow> Inl e | Inr u \<Rightarrow> Inr (SSETransport u)))
      else if cfg_type config = Some ''http'' then
        (if falsy_str (cfg_url config) then Inl (JsError ''HTTP server requires URL'')
         else (case new_URL env (the (cfg_url config)) of
                 Inl e \<Rightarrow> Inl e | Inr u \<Rightarrow> Inr (HTTPTransport u)))
      else if falsy_str (cfg_command config) then Inl (JsError ''Stdio server requires command'')
      else Inr (StdioTransport (the (cfg_command config))
                  (case cfg_args config of None \<Rightarrow> [] | Some a \<Rightarrow> a)
                  (process_env env ++ map_of (case cfg_env config of None \<Rightarrow> [] | Some e \<Rightarrow> e))))"

text \<open>\<open>Promise.race([p, this.timeout(ms, message)])\<close>, awaited.\<close>

definition race_timeout :: "'a raced \<Rightarrow> nat \<Rightarrow> string \<Rightarrow> exn + 'a" where
  "race_timeout r ms message =
     (case r of Resolved v \<Rightarrow> Inr v | Rejected e \<Rightarrow> Inl e | TimedOut \<Rightarrow> Inl (JsError message))"

text \<open>The \<open>try\<close> block of \<open>doConnect\<close>: \<open>Inl\<close> is a throw inside it.\<close>

definition doConnect_try :: "mcp_env \<Rightarrow> string \<Rightarrow> MCPServerConfig \<Rightarrow> exn + MCPConnection" where
  "doConnect_try env name config =
     (case createTransport env config of
        Inl e \<Rightarrow> Inl e
      | Inr tr \<Rightarrow>
          (case race_timeout (server_connect env name tr) CONNECTION_TIMEOUT
                  (''Connection to '' @ name @ '' timed out'') of
             Inl e \<Rightarrow> Inl e
           | Inr u \<Rightarrow>
               (case race_timeout (server_listTools env name) CONNECTION_TIMEOUT
                       (''Listing tools from '' @ name @ '' timed out'') of
                  Inl e \<Rightarrow> Inl e
                | Inr toolsResult \<Rightarrow>
                    Inr \<lparr>transport = tr,
                         tools = (case toolsResult of None \<Rightarrow> [] | Some ts \<Rightarrow> ts)\<rparr>)))"

text \<open>
  \<open>doConnect\<close>: what its promise settles with (\<open>Inl\<close>: it rejects), \<open>null\<close>
  being \<open>None\<close>; the \<open>catch\<close> logs and returns \<open>null\<close>.
\<close>

definition doConnect :: "mcp_env \<Rightarrow> string \<Rightarrow> MCPServerConfig \<Rightarrow> exn + MCPConnection option" where
  "doConnect env name config =
     (case doConnect_try env name config of
        Inr connection \<Rightarrow> Inr (Some connection)
      | Inl e \<Rightarrow> Inr None)"

text \<open>
  The manager between two synchronous runs of its code: the two \<open>Map\<close>s, the
  \<open>doConnect\<close> calls still awaiting the server (\<open>running\<close>), the callers of
  \<open>connect\<close> whose \<open>finally\<close> has not run yet (\<open>cleanup_due\<close>), what each
  \<open>doConnect\<close> promise settled with, and the number of promises created so far.
\<close>

record mgr =
  connections :: connections
  connecting :: "(string \<times> nat) list"
  running :: "(nat \<times> string \<times> MCPServerConfig) list"
  cleanup_due :: "(nat \<times> string) list"
  results :: "nat \<rightharpoonup> (exn + MCPConnection option)"
  next_id :: nat

definition new_mgr :: mgr where
  "new_mgr = \<lparr>connections = [], connecting = [], running = [], cleanup_due = [],
              results = Map.empty, next_id = 0\<rparr>"

text \<open>
  What a call of \<open>connect\<close> hands back: a promise that follows the \<open>doConnect\<close>
  promise with the given number, or one already resolved with the existing connection.
\<close>

datatype connect_handle = Following nat | Existing MCPConnection

text \<open>
  \<open>connect\<close> up to its first \<open>await\<close>: the in-flight promise if there is one, the
  existing connection if there is one, and otherwise a new \<open>doConnect\<close>, registered
  under the name.
\<close>

definition connect :: "string \<Rightarrow> MCPServerConfig \<Rightarrow> mgr \<Rightarrow> connect_handle \<times> mgr" where
  "connect name config s =
     (case map_of (connecting s) name of
        Some existingPromise \<Rightarrow> (Following existingPromise, s)
      | None \<Rightarrow>
          (case map_of (connections s) name of
             Some c \<Rightarrow> (Existing c, s)
           | None \<Rightarrow>
               (let connectPromise = next_id s
                in (Following connectPromise,
                    s\<lparr>connecting := AList.update name connectPromise (connecting s),
                      running := running s @ [(connectPromise, name, config)],
                      next_id := Suc connectPromise\<rparr>))))"

text \<open>
  The rest of \<open>doConnect\<close> number \<open>p\<close>, once the server has answered or a timer has
  fired: a connection is stored under the name, and the promise settles.
\<close>

definition finish :: "mcp_env \<Rightarrow> nat \<Rightarrow> mgr \<Rightarrow> mgr" where
  "finish env p s =
     (case map_of (running s) p of
        None \<Rightarrow> s
      | Some (name, config) \<Rightarrow>
          (let r = doConnect env name config
           in s\<lparr>connections := (case r of
                                  Inr (Some connection) \<Rightarrow> AList.update name connection (connections s)
                                | _ \<Rightarrow> connections s),
                running := AList.delete p (running s),
                cleanup_due := cleanup_due s @ [(p, name)],
                results := (results s)(p \<mapsto> r)\<rparr>))"

text \<open>The \<open>finally\<close> of the \<open>connect\<close> call that created promise \<open>p\<close>.\<close>

definition cleanup :: "nat \<Rightarrow> mgr \<Rightarrow> mgr" where
  "cleanup p s =
     (case map_of (cleanup_due s) p of
        None \<Rightarrow> s
      | Some name \<Rightarrow>
          s\<lparr>connecting := AList.delete name (connecting s),
            cleanup_due := AList.delete p (cleanup_due s)\<rparr>)"

text \<open>The steps of the manager, for any interleaving of callers and servers.\<close>

datatype mgr_event = Connect string MCPServerConfig | Finish nat | Cleanup nat

fun mgr_step :: "mcp_env \<Rightarrow> mgr_event \<Rightarrow> mgr \<Rightarrow> mgr" where
  "mgr_step env (Connect name config) s = snd (connect name config s)"
| "mgr_step env (Finish p) s = finish env p s"
| "mgr_step env (Cleanup p) s = cleanup p s"

definition mgr_run :: "mcp_env \<Rightarrow> mgr_event list \<Rightarrow> mgr \<Rightarrow> mgr" where
  "mgr_run env evs s = fold (mgr_step env) evs s"

text \<open>
  \<open>initialize\<close>: every configured name is passed to \<open>connect\<close>, then
  \<open>Promise.all\<close> waits until every promise has settled. The servers answer in an
  order of their own: \<open>order\<close> lists promise numbers, and the promises it leaves out
  settle after those, in the order of their creation.
\<close>

definition settle :: "mcp_env \<Rightarrow> nat \<Rightarrow> mgr \<Rightarrow> mgr" where
  "settle env p s = cleanup p (finish env p s)"

definition settle_order :: "nat list \<Rightarrow> mgr \<Rightarrow> nat list" where
  "settle_order order s =
     (let ids = map fst (running s)
      in filter (\<lambda>p. p \<in> set ids) (remdups order) @ filter (\<lambda>p. p \<notin> set order) ids)"

fun connect_all :: "(string \<times> MCPServerConfig) list \<Rightarrow> mgr \<Rightarrow> connect_handle list \<times> mgr" where
  "connect_all [] s = ([], s)"
| "connect_all ((name, config) # rest) s =
     (let (h, s1) = connect name config s;
          (hs, s2) = connect_all rest s1
      in (h # hs, s2))"

text \<open>What the promise behind a handle settled with, if it has settled.\<close>

definition handle_result :: "mgr \<Rightarrow> connect_handle \<Rightarrow> (exn + MCPConnection option) option" where
  "handle_result s h = (case h of Following p \<Rightarrow> results s p | Existing c \<Rightarrow> Some (Inr (Some c)))"

fun first_rejection :: "(exn + 'a) option list \<Rightarrow> exn option" where
  "first_rejection [] = None"
| "first_rejection (Some (Inl e) # rs) = Some e"
| "first_rejection (r # rs) = first_rejection rs"

text \<open>
  \<open>initialize\<close> settles with \<open>Inr ()\<close>, or rejects with a rejection of one of the
  promises it awaits (the first one in the order of the names).
\<close>

definition initialize ::
  "mcp_env \<Rightarrow> (string \<times> MCPServerConfig) list \<Rightarrow> nat list \<Rightarrow> mgr \<Rightarrow> (exn + unit) \<times> mgr" where
  "initialize env mcpServers order s =
     (if mcpServers = [] then (Inr (), s)
      else
        (let (hs, s1) = connect_all mcpServers s;
             s2 = fold (settle env) (settle_order order s1) s1
         in (case first_rejection (map (handle_result s2) hs) of
               None \<Rightarrow> (Inr (), s2)
             | Some e \<Rightarrow> (Inl e, s2))))"

section \<open>Plugin connection manager: invariant\<close>

text \<open>The promises whose \<open>doConnect\<close> or whose \<open>finally\<close> is still to run.\<close>

definition in_flight :: "mgr \<Rightarrow> nat set" where
  "in_flight s = set (map fst (running s)) \<union> set (map fst (cleanup_due s))"

text \<open>
  What holds of the manager whatever the interleaving: promise numbers are unique and
  below \<open>next_id\<close>; every \<open>doConnect\<close> still running, and every caller still to
  run its \<open>finally\<close>, is registered in \<open>connecting\<close> under its server name; nothing
  else is registered there, and no promise under two names; no promise has rejected.
\<close>

definition mgr_inv :: "mgr \<Rightarrow> bool" where
  "mgr_inv s =
     (distinct (map fst (running s)) \<and> distinct (map fst (cleanup_due s))
      \<and> set (map fst (running s)) \<inter> set (map fst (cleanup_due s)) = {}
      \<and> (\<forall>p \<in> in_flight s. p < next_id s)
      \<and> (\<forall>p n cfg. (p, n, cfg) \<in> set (running s) \<longrightarrow> map_of (connecting s) n = Some p)
      \<and> (\<forall>p n. (p, n) \<in> set (cleanup_due s) \<longrightarrow> map_of (connecting s) n = Some p)
      \<and> (\<forall>n p. map_of (connecting s) n = Some p \<longrightarrow> p \<in> in_flight s)
      \<and> (\<forall>n m p. map_of (connecting s) n = Some p \<and> map_of (connecting s) m = Some p \<longrightarrow> n = m)
      \<and> (\<forall>p r. results s p = Some r \<longrightarrow> (\<exists>v. r = Inr v)))"

text \<open>A manager with no connect in flight.\<close>

definition quiescent :: "mgr \<Rightarrow> bool" where
  "quiescent s = (connecting s = [] \<and> running s = [] \<and> cleanup_due s = []
                  \<and> (\<forall>p e. results s p \<noteq> Some (Inl e)))"

text \<open>The connection stored under a name once its \<open>doConnect\<close> has finished.\<close>

definition outcome ::
  "mcp_env \<Rightarrow> string \<Rightarrow> MCPServerConfig \<Rightarrow> MCPConnection option \<Rightarrow> MCPConnection option" where
  "outcome env n cfg old = (case doConnect_try env n cfg of Inr c \<Rightarrow> Some c | Inl e \<Rightarrow> old)"

text \<open>
  \<open>settled env P s u\<close>: \<open>u\<close> is \<open>s\<close> after the running promises in \<open>P\<close> have
  settled and their callers have cleaned up.
\<close>

definition settled :: "mcp_env \<Rightarrow> nat set \<Rightarrow> mgr \<Rightarrow> mgr \<Rightarrow> bool" where
  "settled env P s u =
     (cleanup_due u = []
      \<and> set (map fst (running u)) = set (map fst (running s)) - P
      \<and> set (running u) \<subseteq> set (running s)
      \<and> (\<forall>p n cfg. (p, n, cfg) \<in> set (running s) \<and> p \<in> P
            \<longrightarrow> map_of (connections u) n = outcome env n cfg (map_of (connections s) n)
              \<and> results u p = Some (doConnect env n cfg))
      \<and> (\<forall>n. (\<forall>p cfg. (p, n, cfg) \<in> set (running s) \<longrightarrow> p \<notin> P)
            \<longrightarrow> map_of (connections u) n = map_of (connections s) n)
      \<and> (\<forall>p. p \<notin> set (map fst (running s)) \<longrightarrow> results u p = results s p))"

text \<open>
  A connect attempt fails when the transport cannot be created, when \<open>client.connect\<close>
  rejects or runs into the connection timeout, or when \<open>client.listTools\<close> does.
\<close>

definition connect_fails :: "mcp_env \<Rightarrow> string \<Rightarrow> MCPServerConfig \<Rightarrow> bool" where
  "connect_fails env n cfg =
     (case createTransport env cfg of
        Inl e \<Rightarrow> True
      | Inr tr \<Rightarrow> server_connect env n tr \<noteq> Resolved ()
                 \<or> (case server_listTools env n of Resolved ts \<Rightarrow> False | _ \<Rightarrow> True))"

section \<open>Tool dispatch\<close>

text \<open>The \<open>switch\<close> of \<open>executeTool\<close> on the lowered tool name.\<close>

definition unknownTool :: "connections \<Rightarrow> string \<Rightarrow> ToolResult" where
  "unknownTool conns name =
     (let mcpToolNames = join_with '', '' (map (\<lambda>(serverName, t). tool_name t) (getAllTools conns))
      in failure (''Unknown tool: '' @ name
                  @ ''. Built-in tools: Read, Write, Edit, Bash, Glob, Grep, List. MCP tools: ''
                  @ str_or mcpToolNames ''none configured''))"

definition builtinTool ::
  "node_env \<Rightarrow> connections \<Rightarrow> string \<Rightarrow> tool_input \<Rightarrow> string \<Rightarrow> world \<Rightarrow> tool_outcome" where
  "builtinTool env conns name inp cwd w =
     (let lower = toLowerCase name in
      if lower = ''read'' then executeRead env inp cwd w
      else if lower = ''write'' then executeWrite env inp cwd w
      else if lower = ''edit'' then executeEdit env inp cwd w
      else if lower = ''bash'' then executeBash env inp cwd w
      else if lower = ''glob'' then executeGlob env inp cwd w
      else if lower = ''grep'' then executeGrep env inp cwd w
      else if lower = ''list'' \<or> lower = ''ls'' then executeList env inp cwd w
      else (Inr (unknownTool conns name), w))"

text \<open>
  \<open>executeTool\<close>: tools of a connected server go to \<open>callTool\<close>; the built-in
  switch runs inside \<open>try\<close>, whose \<open>catch\<close> turns a throw into a failed result.
\<close>

definition executeTool ::
  "node_env \<Rightarrow> connections \<Rightarrow> string \<Rightarrow> tool_input \<Rightarrow> string \<Rightarrow> world \<Rightarrow> tool_outcome" where
  "executeTool env conns name inp cwd w =
     (if isMcpTool conns name then callTool env conns name inp w
      else
        (case builtinTool env conns name inp cwd w of
           (Inr r, w1) \<Rightarrow> (Inr r, w1)
         | (Inl e, w1) \<Rightarrow> (Inr (failure (error_message_or e ''Unknown error'')), w1)))"

section \<open>Streaming completion loop: data\<close>

datatype wire_block = WText string | WImage string

text \<open>
  A lookup \<open>table[key]\<close> in an object literal also finds what every object inherits
  from \<open>Object.prototype\<close>: its methods, and the prototype itself under
  \<open>__proto__\<close>. None of them is a string, and all of them are truthy.
\<close>

definition inherited_members :: "string list" where
  "inherited_members =
     [''constructor'', ''hasOwnProperty'', ''isPrototypeOf'', ''propertyIsEnumerable'',
      ''toLocaleString'', ''toString'', ''valueOf'', ''__defineGetter__'', ''__defineSetter__'',
      ''__lookupGetter__'', ''__lookupSetter__'', ''__proto__'']"

text \<open>What such a lookup yields where the table holds strings.\<close>

datatype looked_up = Own string | Inherited string

text \<open>
  The content of a message: text, content blocks, or (where a lookup went to the
  prototype) a member of \<open>Object.prototype\<close>.
\<close>

datatype msg_content = Text string | Blocks "wire_block list" | Member string

record tool_call_ref =
  tc_id :: string
  tc_name :: string
  tc_arguments :: string

record message =
  msg_role :: string
  msg_content :: msg_content
  msg_tool_calls :: "tool_call_ref list option"
  msg_tool_call_id :: "string option"

record content_block =
  cb_type :: string
  cb_text :: "string option"
  cb_source :: "string option"

datatype prompt = PromptText string | PromptBlocks "content_block list" | PromptOther

record ConversationMessage =
  cm_role :: string
  cm_content :: "string + content_block list"

datatype system_prompt = SPString string | SPPreset string "string option"

record ExecuteOptions =
  o_prompt :: prompt
  o_model :: "string option"
  o_systemPrompt :: "system_prompt option"
  o_conversationHistory :: "ConversationMessage list"
  o_allowedTools :: "string list option"
  o_abortController :: bool
  o_cwd :: "string option"
  o_maxTurns :: "nat option"
  o_mcpServers :: "(string \<times> MCPServerConfig) list option"

datatype provider_message =
    AssistantText string
  | AssistantToolUse string string tool_input
  | ErrorMessage string
  | ResultMessage string

text \<open>
  The request as \<open>fetch\<close> receives it. Of a tool schema the name and the description
  are kept; the description is what the lookup in the table of descriptions yielded.
\<close>

record request =
  rq_url :: string
  rq_authorization :: string
  rq_model :: string
  rq_messages :: "message list"
  rq_tools :: "(string \<times> looked_up) list option"

text \<open>
  A response: \<open>ok\<close>, \<open>status\<close>, what \<open>text()\<close> settles with, and the body as the
  decoded chunks that successive \<open>reader.read()\<close> calls deliver before \<open>done\<close>
  (\<open>Inl\<close>: that read rejects; \<open>None\<close>: no body).
\<close>

record response =
  rs_ok :: bool
  rs_status :: nat
  rs_text :: "exn + string"
  rs_body :: "(exn + string) list option"

datatype fetch_outcome = FetchRejected exn | FetchResponse response

text \<open>
  One streamed tool-call fragment, and one \<open>data:\<close> line after \<open>JSON.parse\<close> and
  \<open>parsed.choices?.[0]?.delta\<close>; the deltas are taken in the shape of the wire format.
\<close>

record fragment =
  fr_index :: "nat option"
  fr_id :: "string option"
  fr_name :: "string option"
  fr_arguments :: "string option"

record delta =
  d_content :: "string option"
  d_tool_calls :: "fragment list option"

datatype parsed_line = PLSyntaxError | PLNoDelta | PLDelta delta

text \<open>What a run of \<open>executeQuery\<close> does, in order.\<close>

datatype event =
    Yield provider_message
  | Fetch request nat
  | Sleep nat
  | Execute string string tool_input string

text \<open>
  The world of \<open>executeQuery\<close>: the \<open>k\<close>-th call of \<open>fetch\<close>, the \<open>k\<close>-th reading
  of \<open>signal.aborted\<close>, the settings service, \<open>JSON.parse\<close> on a stream line and on
  tool arguments (\<open>None\<close>: it throws), and the order in which plugin servers answer.
\<close>

record query_env =
  node :: node_env
  mcp :: mcp_env
  process_cwd :: string
  getCredentials :: "exn + (string option \<times> string option)"
  getGlobalSettings :: "exn option"
  aborted :: "nat \<Rightarrow> bool"
  fetch :: "nat \<Rightarrow> request \<Rightarrow> fetch_outcome"
  JSON_parse_line :: "string \<Rightarrow> parsed_line"
  JSON_parse_args :: "string \<Rightarrow> tool_input option"
  mcp_order :: "nat list"

record loop_state =
  ls_messages :: "message list"
  ls_totalContent :: string
  ls_fetches :: nat
  ls_abort_reads :: nat
  ls_trace :: "event list"
  ls_world :: world

definition emit :: "event \<Rightarrow> loop_state \<Rightarrow> loop_state" where
  "emit ev s = s\<lparr>ls_trace := ls_trace s @ [ev]\<rparr>"

text \<open>How a stretch of the generator's body ends.\<close>

datatype flow = Next | Break | Return | Throw exn

section \<open>Streaming completion loop: seeding the messages\<close>

definition claude_code_preset :: string where
  "claude_code_preset = join_with [CHR 0x0A]
     [''You are an expert software developer with deep knowledge of multiple programming languages, frameworks, and best practices.'',
      [],
      ''Your role is to help users with coding tasks, including:'',
      ''- Writing, reviewing, and refactoring code'',
      ''- Debugging and fixing issues'',
      ''- Architecting software solutions'',
      ''- Explaining technical concepts'',
      ''- Following project-specific conventions and patterns'',
      [],
      ''When writing code:'',
      ''1. Follow existing code style and conventions'',
      ''2. Write clean, maintainable, and well-documented code'',
      ''3. Consider performance, security, and scalability'',
      ''4. Add appropriate error handling'',
      ''5. Use meaningful variable and function names'',
      [],
      ''When debugging:'',
      ''1. Analyze problem systematically'',
      ''2. Identify root cause'',
      ''3. Propose and implement a fix'',
      ''4. Verify solution works'',
      ''5. Explain what went wrong and how to prevent similar issues'',
      [],
      ''Be thorough but concise. Focus on delivering working solutions.'']"

text \<open>
  \<open>getSystemPromptText\<close>: \<open>presets[preset] || ''\<close> in a table whose only own key
  is \<open>claude_code\<close>, then \<open>text += '\n\n' + append\<close> when \<open>append\<close> is truthy.
\<close>

fun getSystemPromptText :: "node_env \<Rightarrow> system_prompt \<Rightarrow> looked_up" where
  "getSystemPromptText env (SPString t) = Own t"
| "getSystemPromptText env (SPPreset preset appendText) =
     (let text0 = (if preset = ''claude_code'' then Own claude_code_preset
                   else if preset \<in> set inherited_members then Inherited preset
                   else Own [])
      in case appendText of
           None \<Rightarrow> text0
         | Some a \<Rightarrow>
             (if a \<noteq> []
              then Own ((case text0 of Own t \<Rightarrow> t | Inherited m \<Rightarrow> inherited_text env m)
                        @ [CHR 0x0A, CHR 0x0A] @ a)
              else text0))"

definition content_of :: "looked_up \<Rightarrow> msg_content" where
  "content_of v = (case v of Own t \<Rightarrow> Text t | Inherited m \<Rightarrow> Member m)"

definition convertBlock :: "content_block \<Rightarrow> wire_block" where
  "convertBlock b =
     (if cb_type b = ''text'' \<and> \<not> falsy_str (cb_text b) then WText (the (cb_text b))
      else if cb_type b = ''image'' \<and> cb_source b \<noteq> None then WImage (the (cb_source b))
      else WText [])"

definition plain_message :: "string \<Rightarrow> msg_content \<Rightarrow> message" where
  "plain_message r c =
     \<lparr>msg_role = r, msg_content = c, msg_tool_calls = None, msg_tool_call_id = None\<rparr>"

definition convertToOpenAIMessage :: "ConversationMessage \<Rightarrow> message" where
  "convertToOpenAIMessage msg =
     (case cm_content msg of
        Inl t \<Rightarrow> plain_message (cm_role msg) (Text t)
      | Inr blocks \<Rightarrow> plain_message (cm_role msg) (Blocks (map convertBlock blocks)))"

text \<open>The initial message array: system prompt if given, history, current prompt.\<close>

definition seedMessages :: "node_env \<Rightarrow> ExecuteOptions \<Rightarrow> message list" where
  "seedMessages env opts =
     (case o_systemPrompt opts of
        None \<Rightarrow> []
      | Some (SPString t) \<Rightarrow> (if t \<noteq> [] then [plain_message ''system'' (Text t)] else [])
      | Some sp \<Rightarrow> [plain_message ''system'' (content_of (getSystemPromptText env sp))])
     @ map convertToOpenAIMessage (o_conversationHistory opts)
     @ (case o_prompt opts of
          PromptText t \<Rightarrow> [plain_message ''user'' (Text t)]
        | PromptBlocks blocks \<Rightarrow> [plain_message ''user'' (Blocks (map convertBlock blocks))]
        | PromptOther \<Rightarrow> [])"

text \<open>
  \<open>getBuiltInToolDescription\<close>: \<open>descriptions[toolName] || `Tool: ${toolName}`\<close>.
\<close>

definition getBuiltInToolDescription :: "string \<Rightarrow> looked_up" where
  "getBuiltInToolDescription toolName =
     (case map_of
        [(''Read'', ''Read the contents of a file at the specified path''),
         (''Write'', ''Write content to a file at the specified path''),
         (''Edit'', ''Edit a file by replacing old_string with new_string''),
         (''Bash'', ''Execute a bash command in the shell''),
         (''Glob'', ''Find files matching a glob pattern''),
         (''Grep'', ''Search for a pattern in files''),
         (''List'', ''List files and directories at the specified path'')] toolName of
        Some d \<Rightarrow> Own d
      | None \<Rightarrow>
          (if toolName \<in> set inherited_members then Inherited toolName
           else Own (''Tool: '' @ toolName)))"

text \<open>\<open>buildToolsSchema\<close>: the allowed built-in names, then the plugin tools not among them.\<close>

definition buildToolsSchema :: "connections \<Rightarrow> string list \<Rightarrow> (string \<times> looked_up) list" where
  "buildToolsSchema conns allowedTools =
     map (\<lambda>toolName. (toolName, getBuiltInToolDescription toolName)) allowedTools
     @ map (\<lambda>(serverName, t).
              (tool_name t,
               Own (case tool_description t of
                      None \<Rightarrow> ''MCP Tool: '' @ tool_name t
                    | Some d \<Rightarrow> str_or d (''MCP Tool: '' @ tool_name t))))
           (filter (\<lambda>(serverName, t). tool_name t \<notin> set allowedTools) (getAllTools conns))"

section \<open>Streaming completion loop: one turn\<close>

definition MAX_RETRIES :: nat where
  "MAX_RETRIES = 3"

definition FETCH_TIMEOUT :: nat where
  "FETCH_TIMEOUT = 120000"

text \<open>A number inside a template literal.\<close>

fun show_nat :: "nat \<Rightarrow> string" where
  "show_nat n =
     (if n < 10 then [char_of (48 + n)]
      else show_nat (n div 10) @ [char_of (48 + n mod 10)])"

declare show_nat.simps [simp del]

text \<open>
  Trimming the history: with more than 42 messages, \<open>messages[0]\<close> and
  \<open>messages.slice(-40)\<close> replace the array.
\<close>

definition trimHistory :: "message list \<Rightarrow> message list" where
  "trimHistory ms = (if length ms > 42 then hd ms # drop (length ms - 40) ms else ms)"

text \<open>
  The retry loop \<open>for (attempt = 1; attempt <= MAX_RETRIES; attempt++)\<close>: each attempt
  arms a timer of \<open>FETCH_TIMEOUT\<close> and calls \<open>fetch\<close>; a response leaves the loop; a
  rejection is remembered, its \<open>name\<close> is read (which throws out of the loop when the
  rejection is \<open>null\<close> or \<open>undefined\<close>) and, unless it was the last attempt, a
  wait of \<open>2 ^ attempt * 1000\<close> milliseconds follows. The result is the throw or the
  response, with \<open>lastError\<close>.
\<close>

function fetchWithRetry ::
  "query_env \<Rightarrow> request \<Rightarrow> nat \<Rightarrow> exn option \<Rightarrow> loop_state
     \<Rightarrow> (exn + response option) \<times> exn option \<times> loop_state" where
  "fetchWithRetry env rq attempt lastError s =
     (if attempt \<le> MAX_RETRIES then
        (let s1 = (emit (Fetch rq FETCH_TIMEOUT) s)\<lparr>ls_fetches := Suc (ls_fetches s)\<rparr>
         in case fetch env (ls_fetches s) rq of
              FetchResponse r \<Rightarrow> (Inr (Some r), lastError, s1)
            | FetchRejected fetchError \<Rightarrow>
                (case readCaught (node env) fetchError ''name'' of
                   Some typeError \<Rightarrow> (Inl typeError, Some fetchError, s1)
                 | None \<Rightarrow>
                     fetchWithRetry env rq (Suc attempt) (Some fetchError)
                       (if attempt < MAX_RETRIES then emit (Sleep (2 ^ attempt * 1000)) s1 else s1)))
      else (Inr None, lastError, s))"
  by pat_completeness auto
termination
  by (relation "measure (\<lambda>(env, rq, attempt, lastError, s). Suc MAX_RETRIES - attempt)") auto

declare fetchWithRetry.simps [simp del]

text \<open>\<open>buffer.split('\n')\<close>\<close>

fun split_nl :: "string \<Rightarrow> string list" where
  "split_nl [] = [] # []"
| "split_nl (c # cs) =
     (if c = CHR 0x0A then [] # split_nl cs
      else (case split_nl cs of [] \<Rightarrow> [c] # [] | l # ls \<Rightarrow> (c # l) # ls))"

text \<open>
  The per-turn variables of the stream loop; \<open>turnToolCalls\<close> is an array with holes.
\<close>

record turn_state =
  ts_buffer :: string
  ts_turnContent :: string
  ts_turnToolCalls :: "tool_call_ref option list"

definition array_get :: "'a option list \<Rightarrow> nat \<Rightarrow> 'a option" where
  "array_get xs i = (if i < length xs then xs ! i else None)"

definition array_set :: "'a option list \<Rightarrow> nat \<Rightarrow> 'a \<Rightarrow> 'a option list" where
  "array_set xs i v =
     (if i < length xs then xs[i := Some v]
      else xs @ replicate (i - length xs) None @ [Some v])"

fun present :: "'a option list \<Rightarrow> 'a list" where
  "present [] = []"
| "present (None # xs) = present xs"
| "present (Some x # xs) = x # present xs"

definition applyFragment :: "tool_call_ref option list \<Rightarrow> fragment \<Rightarrow> tool_call_ref option list" where
  "applyFragment tcs tc =
     (let idx = (case fr_index tc of None \<Rightarrow> 0 | Some i \<Rightarrow> i);
          cur = (case array_get tcs idx of
                   None \<Rightarrow> \<lparr>tc_id = (if falsy_str (fr_id tc) then ''call_'' @ show_nat idx
                                      else the (fr_id tc)),
                            tc_name = [], tc_arguments = []\<rparr>
                 | Some r \<Rightarrow> r);
          r1 = (if falsy_str (fr_id tc) then cur else cur\<lparr>tc_id := the (fr_id tc)\<rparr>);
          r2 = (if falsy_str (fr_name tc) then r1 else r1\<lparr>tc_name := the (fr_name tc)\<rparr>);
          r3 = (if falsy_str (fr_arguments tc) then r2
                else r2\<lparr>tc_arguments := tc_arguments r2 @ the (fr_arguments tc)\<rparr>)
      in array_set tcs idx r3)"

definition processLine ::
  "query_env \<Rightarrow> turn_state \<times> loop_state \<Rightarrow> string \<Rightarrow> turn_state \<times> loop_state" where
  "processLine env st line =
     (if prefix ''data: '' line then
        (let dat = drop 6 line in
         if dat = ''[DONE]'' then st
         else
           (case JSON_parse_line env dat of
              PLSyntaxError \<Rightarrow> st
            | PLNoDelta \<Rightarrow> st
            | PLDelta d \<Rightarrow>
                (let ts = fst st; s = snd st;
                     st1 = (if falsy_str (d_content d) then (ts, s)
                            else (ts\<lparr>ts_turnContent := ts_turnContent ts @ the (d_content d)\<rparr>,
                                  (emit (Yield (AssistantText (the (d_content d)))) s)
                                    \<lparr>ls_totalContent := ls_totalContent s @ the (d_content d)\<rparr>))
                 in (case d_tool_calls d of
                       None \<Rightarrow> st1
                     | Some frs \<Rightarrow>
                         ((fst st1)\<lparr>ts_turnToolCalls :=
                                      foldl applyFragment (ts_turnToolCalls (fst st1)) frs\<rparr>,
                          snd st1)))))
      else st)"

text \<open>The loop \<open>while (true) { await reader.read() ... }\<close> over the chunks of the body.\<close>

fun readStream ::
  "query_env \<Rightarrow> bool \<Rightarrow> (exn + string) list \<Rightarrow> turn_state \<Rightarrow> loop_state
     \<Rightarrow> flow \<times> turn_state \<times> loop_state" where
  "readStream env abortable [] ts s = (Next, ts, s)"
| "readStream env abortable (Inl e # rest) ts s = (Throw e, ts, s)"
| "readStream env abortable (Inr v # rest) ts s =
     (let isAborted = (abortable \<and> aborted env (ls_abort_reads s));
          s0 = (if abortable then s\<lparr>ls_abort_reads := Suc (ls_abort_reads s)\<rparr> else s)
      in if isAborted then (Return, ts, emit (Yield (ErrorMessage ''Request aborted'')) s0)
         else
           (let lines = split_nl (ts_buffer ts @ v);
                st1 = foldl (processLine env) (ts\<lparr>ts_buffer := last lines\<rparr>, s0) (butlast lines)
            in readStream env abortable rest (fst st1) (snd st1)))"

text \<open>
  The arguments of a tool call: \<open>JSON.parse\<close>, and \<open>{ raw: tc.arguments }\<close> when it
  throws.
\<close>

definition parseToolInput :: "query_env \<Rightarrow> string \<Rightarrow> tool_input" where
  "parseToolInput env args =
     (case JSON_parse_args env args of
        Some parsed \<Rightarrow> parsed
      | None \<Rightarrow> obj [(''raw'', JStr args)])"

definition tool_message :: "string \<Rightarrow> string \<Rightarrow> message" where
  "tool_message callId resultText =
     \<lparr>msg_role = ''tool'', msg_content = Text resultText, msg_tool_calls = None,
      msg_tool_call_id = Some callId\<rparr>"

definition resultText :: "ToolResult \<Rightarrow> string" where
  "resultText r =
     (if tr_success r then tr_output r
      else ''Error: '' @ (case tr_error r of None \<Rightarrow> ''undefined'' | Some e \<Rightarrow> e))"

text \<open>The loop over the validated tool calls of a turn.\<close>

fun runToolCalls ::
  "query_env \<Rightarrow> connections \<Rightarrow> string \<Rightarrow> tool_call_ref list \<Rightarrow> loop_state \<Rightarrow> flow \<times> loop_state" where
  "runToolCalls env conns workingDir [] s = (Next, s)"
| "runToolCalls env conns workingDir (tc # rest) s =
     (let parsedInput = parseToolInput env (tc_arguments tc);
          s1 = emit (Yield (AssistantToolUse (tc_id tc) (tc_name tc) parsedInput)) s;
          s2 = emit (Execute (tc_id tc) (tc_name tc) parsedInput workingDir) s1
      in case executeTool (node env) conns (tc_name tc) parsedInput workingDir (ls_world s2) of
           (Inl e, w1) \<Rightarrow> (Throw e, s2\<lparr>ls_world := w1\<rparr>)
         | (Inr r, w1) \<Rightarrow>
             runToolCalls env conns workingDir rest
               (s2\<lparr>ls_world := w1,
                   ls_messages := ls_messages s2 @ [tool_message (tc_id tc) (resultText r)]\<rparr>))"

definition connection_failed :: "exn option \<Rightarrow> string" where
  "connection_failed lastError =
     ''Z.ai API connection failed after '' @ show_nat MAX_RETRIES @ '' attempts: ''
     @ str_or (case lastError of None \<Rightarrow> [] | Some e \<Rightarrow> message_of e) ''Unknown error''"

definition assistant_message :: "string \<Rightarrow> tool_call_ref list \<Rightarrow> message" where
  "assistant_message turnContent validToolCalls =
     \<lparr>msg_role = ''assistant'', msg_content = Text turnContent,
      msg_tool_calls = Some validToolCalls, msg_tool_call_id = None\<rparr>"

record turn_config =
  t_abortable :: bool
  t_model :: string
  t_useEndpoint :: string
  t_apiKey :: string
  t_tools :: "(string \<times> looked_up) list option"
  t_workingDir :: string
  t_conns :: connections

text \<open>
  One pass through the body of the agentic loop: the cancellation check, the request
  body, the trimming of \<open>messages\<close> (the body holds the same array, so it is sent
  trimmed), the retry loop, the response checks, the stream, and the tool calls.
\<close>

definition turn :: "query_env \<Rightarrow> turn_config \<Rightarrow> loop_state \<Rightarrow> flow \<times> loop_state" where
  "turn env c s =
     (let isAborted = (t_abortable c \<and> aborted env (ls_abort_reads s));
          s0 = (if t_abortable c then s\<lparr>ls_abort_reads := Suc (ls_abort_reads s)\<rparr> else s)
      in if isAborted then (Return, emit (Yield (ErrorMessage ''Request aborted'')) s0)
         else
           (let s1 = s0\<lparr>ls_messages := trimHistory (ls_messages s0)\<rparr>;
                requestBody = \<lparr>rq_url = t_useEndpoint c @ ''/completions'',
                               rq_authorization = ''Bearer '' @ t_apiKey c,
                               rq_model = t_model c,
                               rq_messages = ls_messages s1,
                               rq_tools = t_tools c\<rparr>
            in case fetchWithRetry env requestBody 1 None s1 of
                 (Inl e, lastError, s2) \<Rightarrow> (Throw e, s2)
               | (Inr None, lastError, s2) \<Rightarrow>
                   (Return, emit (Yield (ErrorMessage (connection_failed lastError))) s2)
               | (Inr (Some resp), lastError, s2) \<Rightarrow>
                   if \<not> rs_ok resp then
                     (case rs_text resp of
                        Inl e \<Rightarrow> (Throw e, s2)
                      | Inr errorText \<Rightarrow>
                          (Return,
                           emit (Yield (ErrorMessage (''Z.ai API error ('' @ show_nat (rs_status resp)
                                                      @ ''): '' @ errorText))) s2))
                   else
                     (case rs_body resp of
                        None \<Rightarrow>
                          (Return, emit (Yield (ErrorMessage ''Failed to read response stream'')) s2)
                      | Some chunks \<Rightarrow>
                          (case readStream env (t_abortable c) chunks
                                  \<lparr>ts_buffer = [], ts_turnContent = [], ts_turnToolCalls = []\<rparr> s2 of
                             (Next, ts, s3) \<Rightarrow>
                               (let validToolCalls =
                                      filter (\<lambda>tc. tc_id tc \<noteq> [] \<and> tc_name tc \<noteq> [])
                                        (present (ts_turnToolCalls ts))
                                in if validToolCalls = [] then (Break, s3)
                                   else runToolCalls env (t_conns c) (t_workingDir c) validToolCalls
                                          (s3\<lparr>ls_messages := ls_messages s3
                                                @ [assistant_message (ts_turnContent ts) validToolCalls]\<rparr>))
                           | (fl, ts, s3) \<Rightarrow> (fl, s3)))))"

section \<open>Streaming completion loop: the whole call\<close>

text \<open>\<open>while (turnCount < maxTurns)\<close>; leaving the loop by its condition is \<open>Break\<close>.\<close>

function agentLoop ::
  "query_env \<Rightarrow> turn_config \<Rightarrow> nat \<Rightarrow> nat \<Rightarrow> loop_state \<Rightarrow> flow \<times> loop_state" where
  "agentLoop env c maxTurns turnCount s =
     (if turnCount < maxTurns then
        (case turn env c s of
           (Next, s1) \<Rightarrow> agentLoop env c maxTurns (Suc turnCount) s1
         | (fl, s1) \<Rightarrow> (fl, s1))
      else (Break, s))"
  by pat_completeness auto
termination
  by (relation "measure (\<lambda>(env, c, maxTurns, turnCount, s). maxTurns - turnCount)") auto

declare agentLoop.simps [simp del]

definition ZAI_codingPlan :: string where
  "ZAI_codingPlan = ''https://api.z.ai/api/coding/paas/v4''"

definition ZAI_chat :: string where
  "ZAI_chat = ''https://chat.z.ai/api/chat''"

text \<open>The \<open>catch\<close> at the end of \<open>executeQuery\<close>.\<close>

definition caught :: "exn \<Rightarrow> loop_state \<Rightarrow> loop_state" where
  "caught e s =
     (case e of
        JsAbortError m \<Rightarrow> emit (Yield (ErrorMessage ''Request aborted'')) s
      | _ \<Rightarrow> emit (Yield (ErrorMessage (error_message_or e ''Unknown error occurred''))) s)"

definition initial_state :: "world \<Rightarrow> loop_state" where
  "initial_state w =
     \<lparr>ls_messages = [], ls_totalContent = [], ls_fetches = 0, ls_abort_reads = 0,
      ls_trace = [], ls_world = w\<rparr>"

text \<open>After the loop: the final result, unless the body returned or threw.\<close>

definition finishQuery :: "flow \<times> loop_state \<Rightarrow> loop_state" where
  "finishQuery r =
     (case fst r of
        Throw e \<Rightarrow> caught e (snd r)
      | Return \<Rightarrow> snd r
      | _ \<Rightarrow> emit (Yield (ResultMessage (ls_totalContent (snd r)))) (snd r))"

definition turnConfig ::
  "ExecuteOptions \<Rightarrow> string \<Rightarrow> connections \<Rightarrow> string option \<Rightarrow> string option \<Rightarrow> turn_config" where
  "turnConfig opts workingDir conns zai zaiChat =
     \<lparr>t_abortable = o_abortController opts,
      t_model = (if falsy_str (o_model opts) then ''glm-4.7'' else the (o_model opts)),
      t_useEndpoint = (if falsy_str zai then ZAI_chat else ZAI_codingPlan),
      t_apiKey = the (if falsy_str zai then zaiChat else zai),
      t_tools = (case o_allowedTools opts of
                   None \<Rightarrow> None
                 | Some allowedTools \<Rightarrow>
                     (if allowedTools \<noteq> [] then Some (buildToolsSchema conns allowedTools)
                      else None)),
      t_workingDir = workingDir,
      t_conns = conns\<rparr>"

text \<open>The \<open>try\<close> block of \<open>executeQuery\<close> with its \<open>catch\<close>.\<close>

definition queryBody ::
  "query_env \<Rightarrow> ExecuteOptions \<Rightarrow> string \<Rightarrow> connections \<Rightarrow> loop_state \<Rightarrow> loop_state" where
  "queryBody env opts workingDir conns s =
     (case getCredentials env of
        Inl e \<Rightarrow> caught e s
      | Inr keys \<Rightarrow>
          (case getGlobalSettings env of
             Some e \<Rightarrow> caught e s
           | None \<Rightarrow>
               (if falsy_str (if falsy_str (fst keys) then snd keys else fst keys) then
                  emit (Yield (ErrorMessage
                    ''Z.ai API key not configured. Please add your API key in Settings > Providers > Z.ai''))
                    s
                else
                  finishQuery
                    (agentLoop env (turnConfig opts workingDir conns (fst keys) (snd keys))
                       (case o_maxTurns opts of None \<Rightarrow> 50 | Some n \<Rightarrow> n) 0
                       (s\<lparr>ls_messages := seedMessages (node env) opts\<rparr>)))))"

text \<open>
  \<open>executeQuery\<close>: whether the generator ends normally or throws (only the
  initialisation of the plugin servers is outside its \<open>try\<close>), what it did, and the
  manager it leaves.
\<close>

definition executeQuery ::
  "query_env \<Rightarrow> ExecuteOptions \<Rightarrow> mgr \<Rightarrow> world \<Rightarrow> (exn + unit) \<times> loop_state \<times> mgr" where
  "executeQuery env opts m w =
     (let workingDir = (if falsy_str (o_cwd opts) then process_cwd env else the (o_cwd opts));
          init = (case o_mcpServers opts of
                    None \<Rightarrow> (Inr (), m)
                  | Some servers \<Rightarrow>
                      (if servers \<noteq> [] then initialize (mcp env) servers (mcp_order env) m
                       else (Inr (), m)))
      in case fst init of
           Inl e \<Rightarrow> (Inl e, initial_state w, snd init)
         | Inr u \<Rightarrow>
             (Inr (),
              queryBody env opts workingDir (connections (snd init)) (initial_state w),
              snd init))"

section \<open>Streaming completion loop: observations\<close>

text \<open>The waits, the requests and the tool executions of a run, in order.\<close>

fun sleeps :: "event list \<Rightarrow> nat list" where
  "sleeps [] = []"
| "sleeps (Sleep n # evs) = n # sleeps evs"
| "sleeps (ev # evs) = sleeps evs"

fun requests :: "event list \<Rightarrow> request list" where
  "requests [] = []"
| "requests (Fetch rq t # evs) = rq # requests evs"
| "requests (ev # evs) = requests evs"

fun executed :: "event list \<Rightarrow> (string \<times> string \<times> tool_input \<times> string) list" where
  "executed [] = []"
| "executed (Execute i n inp wd # evs) = (i, n, inp, wd) # executed evs"
| "executed (ev # evs) = executed evs"

text \<open>
  What one turn does to the state: the trace grows, every request sent carries the
  trimmed history under the per-attempt timeout, and the first message stays first.
\<close>

definition turn_ok :: "loop_state \<Rightarrow> loop_state \<Rightarrow> bool" where
  "turn_ok s s' =
     (\<exists>evs. ls_trace s' = ls_trace s @ evs
        \<and> (\<forall>rq t. Fetch rq t \<in> set evs
              \<longrightarrow> rq_messages rq = trimHistory (ls_messages s) \<and> t = FETCH_TIMEOUT)
        \<and> (ls_messages s \<noteq> []
              \<longrightarrow> ls_messages s' \<noteq> [] \<and> hd (ls_messages s') = hd (ls_messages s)))"

section \<open>A concrete environment for evaluation\<close>

text \<open>
  POSIX-style paths (\<open>join\<close> without normalisation), no failing write or
  \<open>mkdir\<close>, commands and remote calls that return nothing.
\<close>

definition test_env :: node_env where
  "test_env =
     \<lparr>isAbsolute = (\<lambda>p. prefix ''/'' p),
      join = (\<lambda>a b. a @ ''/'' @ b),
      dirname = (\<lambda>p. ''/''),
      ancestors = (\<lambda>p. {}),
      type_error_msg = (\<lambda>e. ''TypeError''),
      to_string = (\<lambda>v. ''[object Object]''),
      inherited_text = (\<lambda>m. ''function '' @ m @ ''() { [native code] }''),
      read_error = (\<lambda>p. JsError ''ENOENT: no such file or directory''),
      write_error = (\<lambda>p. None),
      mkdir_error = (\<lambda>p. None),
      readdir = (\<lambda>w p. Inr []),
      execSync = (\<lambda>c opts w. (Inr [], w)),
      callRemote = (\<lambda>h n a w. (CallResolved None, w))\<rparr>"

definition one_file :: "string \<Rightarrow> string \<Rightarrow> world" where
  "one_file p c = \<lparr>files = [p \<mapsto> c], dirs = {''/''}\<rparr>"

text \<open>
  Plugin servers: \<open>slow\<close> never answers within the timeout, \<open>down\<close> refuses the
  connection, every other server connects and lists one tool.
\<close>

definition test_mcp_env :: mcp_env where
  "test_mcp_env =
     \<lparr>process_env = Map.empty,
      url_error = (\<lambda>u. None),
      server_connect = (\<lambda>n tr. if n = ''slow'' then TimedOut
                                else if n = ''down'' then Rejected (JsError ''ECONNREFUSED'')
                                else Resolved ()),
      server_listTools =
        (\<lambda>n. Resolved (Some [\<lparr>tool_name = n @ ''_search'', tool_description = None\<rparr>]))\<rparr>"

text \<open>The connections after the server \<open>files\<close> has connected and listed its tool.\<close>

definition test_conns :: connections where
  "test_conns =
     [(''files'', \<lparr>transport = StdioTransport ''files-server'' [] Map.empty,
                  tools = [\<lparr>tool_name = ''files_search'', tool_description = None\<rparr>]\<rparr>)]"

definition stdio_config :: "string \<Rightarrow> MCPServerConfig" where
  "stdio_config cmd =
     \<lparr>cfg_type = None, cfg_url = None, cfg_command = Some cmd, cfg_args = None, cfg_env = None\<rparr>"

definition test_servers :: "(string \<times> MCPServerConfig) list" where
  "test_servers =
     [(''files'', stdio_config ''files-server''),
      (''down'', stdio_config ''down-server''),
      (''slow'', stdio_config ''slow-server'')]"

text \<open>
  A completion endpoint that cannot be reached: every \<open>fetch\<close> rejects. Of tool
  arguments only \<open>{}\<close> parses.
\<close>

definition test_query_env :: query_env where
  "test_query_env =
     \<lparr>node = test_env, mcp = test_mcp_env, process_cwd = ''/w'',
      getCredentials = Inr (Some ''key'', None), getGlobalSettings = None,
      aborted = (\<lambda>k. False),
      fetch = (\<lambda>k rq. FetchRejected (JsError ''fetch failed'')),
      JSON_parse_line = (\<lambda>l. PLSyntaxError),
      JSON_parse_args = (\<lambda>a. if a = ''{}'' then Some (obj []) else None),
      mcp_order = []\<rparr>"

definition test_options :: ExecuteOptions where
  "test_options =
     \<lparr>o_prompt = PromptText ''list files'', o_model = None,
      o_systemPrompt = Some (SPString ''You are helpful''), o_conversationHistory = [],
      o_allowedTools = None, o_abortController = False, o_cwd = None, o_maxTurns = None,
      o_mcpServers = None\<rparr>"

text \<open>
  A call with a system prompt, 49 messages of history and the prompt: one system message
  followed by 50 messages. And a call with no system prompt, 42 messages of history and
  the prompt.
\<close>

definition long_options :: ExecuteOptions where
  "long_options =
     test_options\<lparr>o_conversationHistory :=
                    replicate 49 \<lparr>cm_role = ''user'', cm_content = Inl ''again''\<rparr>\<rparr>"

definition no_system_options :: ExecuteOptions where
  "no_system_options =
     test_options\<lparr>o_systemPrompt := None,
                  o_conversationHistory :=
                    replicate 42 \<lparr>cm_role = ''user'', cm_content = Inl ''again''\<rparr>\<rparr>"

section \<open>Properties of the string operations\<close>

lemma includes_str_iff: "includes_str s p \<longleftrightarrow> (\<exists>pre post. s = pre @ p @ post)"
proof (induction s)
  case Nil
  then show ?case by auto
next
  case (Cons c cs)
  show ?case
  proof
    assume "includes_str (c # cs) p"
    then consider "prefix p (c # cs)" | "includes_str cs p" by auto
    then show "\<exists>pre post. c # cs = pre @ p @ post"
    proof cases
      case 1
      then obtain post where "c # cs = p @ post" by (auto simp: prefix_def)
      then have "c # cs = [] @ p @ post" by simp
      then show ?thesis by blast
    next
      case 2
      with Cons obtain pre post where "cs = pre @ p @ post" by auto
      then have "c # cs = (c # pre) @ p @ post" by simp
      then show ?thesis by blast
    qed
  next
    assume "\<exists>pre post. c # cs = pre @ p @ post"
    then obtain pre post where eq: "c # cs = pre @ p @ post" by blast
    show "includes_str (c # cs) p"
    proof (cases pre)
      case Nil
      with eq have "prefix p (c # cs)" by (simp add: prefix_def)
      then show ?thesis by simp
    next
      case (Cons x xs)
      with eq have "cs = xs @ p @ post" by simp
      with Cons.IH have "includes_str cs p" by blast
      then show ?thesis by simp
    qed
  qed
qed

lemma includes_str_set: "includes_str s p \<Longrightarrow> set p \<subseteq> set s"
  by (auto simp: includes_str_iff)

lemma splitFirst_None: "splitFirst s p = None \<longleftrightarrow> \<not> includes_str s p"
  by (induction s) auto

lemma splitFirst_Some: "splitFirst s p = Some (b, a) \<Longrightarrow> s = b @ p @ a"
proof (induction s arbitrary: b)
  case Nil
  then show ?case by (auto split: if_splits)
next
  case (Cons c cs)
  show ?case
  proof (cases "prefix p (c # cs)")
    case True
    with Cons.prems have "b = []" "a = drop (length p) (c # cs)" by auto
    moreover from True have "c # cs = p @ drop (length p) (c # cs)"
      by (metis append_eq_conv_conj prefixE)
    ultimately show ?thesis by simp
  next
    case False
    with Cons.prems obtain b' where "splitFirst cs p = Some (b', a)" "b = c # b'"
      by auto
    with Cons.IH show ?thesis by auto
  qed
qed

text \<open>The split is at the leftmost occurrence.\<close>

lemma splitFirst_least:
  "splitFirst s p = Some (b, a) \<Longrightarrow> s = b' @ p @ a' \<Longrightarrow> length b \<le> length b'"
proof (induction s arbitrary: b b')
  case Nil
  then show ?case by (auto split: if_splits)
next
  case (Cons c cs)
  show ?case
  proof (cases "prefix p (c # cs)")
    case True
    with Cons.prems(1) have "b = []" by simp
    then show ?thesis by simp
  next
    case False
    with Cons.prems(1) obtain b0 where b0: "splitFirst cs p = Some (b0, a)" "b = c # b0"
      by auto
    from False Cons.prems(2) have "b' \<noteq> []" by (auto simp: prefix_def)
    then obtain b1 where b1: "b' = c # b1" using Cons.prems(2) by (cases b') auto
    with Cons.prems(2) have "cs = b1 @ p @ a'" by simp
    with Cons.IH b0 have "length b0 \<le> length b1" by blast
    with b0 b1 show ?thesis by simp
  qed
qed

lemma getSubstitution_plain:
  "CHR ''$'' \<notin> set r \<Longrightarrow> getSubstitution m b a r = r"
  by (induction m b a r rule: getSubstitution.induct) auto

text \<open>
  With a replacement free of \<open>$\<close>, \<open>replace\<close> puts the replacement in the place of
  the leftmost occurrence of the pattern.
\<close>

lemma replace_first_occurrence:
  assumes "includes_str s p" and "CHR ''$'' \<notin> set r"
  shows "\<exists>b a. s = b @ p @ a \<and> (\<forall>b' a'. s = b' @ p @ a' \<longrightarrow> length b \<le> length b')
               \<and> replace s p r = b @ r @ a"
proof -
  from assms(1) obtain b a where sp: "splitFirst s p = Some (b, a)"
    using splitFirst_None by (cases "splitFirst s p") auto
  have "s = b @ p @ a" using sp by (rule splitFirst_Some)
  moreover have "\<forall>b' a'. s = b' @ p @ a' \<longrightarrow> length b \<le> length b'"
    using sp splitFirst_least by blast
  moreover have "replace s p r = b @ r @ a"
    using sp assms(2) by (simp add: replace_def getSubstitution_plain)
  ultimately show ?thesis by blast
qed

lemma replace_absent: "\<not> includes_str s p \<Longrightarrow> replace s p r = s"
  using splitFirst_None[of s p] by (simp add: replace_def)

text \<open>No capital \<open>K\<close> survives \<open>toLowerCase\<close>.\<close>

lemma toLowerChar_not_K: "toLowerChar c \<noteq> CHR ''K''"
proof -
  have b: "(of_char c :: nat) < 256" by simp
  show ?thesis
    unfolding toLowerChar_def Let_def
    using b by (auto simp: char_of_eq_iff take_bit_eq_mod)
qed

lemma toLowerCase_no_K: "CHR ''K'' \<notin> set (toLowerCase s)"
  using toLowerChar_not_K by (auto simp: toLowerCase_def) metis

lemma kill_KILL_never_matches: "\<not> includes_str (toLowerCase c) ''kill -KILL''"
proof
  assume "includes_str (toLowerCase c) ''kill -KILL''"
  then have "set ''kill -KILL'' \<subseteq> set (toLowerCase c)" by (rule includes_str_set)
  then have "CHR ''K'' \<in> set (toLowerCase c)" by auto
  then show False by (simp add: toLowerCase_no_K)
qed

section \<open>Properties of the safety filter\<close>

text \<open>The comparison of the code with the five rules, apart from the claims below.\<close>

lemma toLowerCase_patterns:
  "toLowerCase ''lsof'' = ''lsof''"
  "toLowerCase ''kill'' = ''kill''"
  "toLowerCase ''xargs'' = ''xargs''"
  "toLowerCase ''kill -9'' = ''kill -9''"
  "toLowerCase ''kill -KILL'' = ''kill -kill''"
  "toLowerCase ''pkill'' = ''pkill''"
  "toLowerCase ''killall'' = ''killall''"
  "toLowerCase ''next'' = ''next''"
  "toLowerCase ''node'' = ''node''"
  "toLowerCase ''pkill -f'' = ''pkill -f''"
  "toLowerCase ''rm -rf /'' = ''rm -rf /''"
  "toLowerCase ''rm -rf /.'' = ''rm -rf /.''"
  "toLowerCase ''npm run dev'' = ''npm run dev''"
  "toLowerCase ''npm start'' = ''npm start''"
  "toLowerCase ''npm run start'' = ''npm run start''"
  "toLowerCase ''&'' = ''&''"
  by code_simp+

lemma containsCI_lower:
  "containsCI c ''lsof'' = includes_str (toLowerCase c) ''lsof''"
  "containsCI c ''kill'' = includes_str (toLowerCase c) ''kill''"
  "containsCI c ''xargs'' = includes_str (toLowerCase c) ''xargs''"
  "containsCI c ''kill -9'' = includes_str (toLowerCase c) ''kill -9''"
  "containsCI c ''kill -KILL'' = includes_str (toLowerCase c) ''kill -kill''"
  "containsCI c ''pkill'' = includes_str (toLowerCase c) ''pkill''"
  "containsCI c ''killall'' = includes_str (toLowerCase c) ''killall''"
  "containsCI c ''next'' = includes_str (toLowerCase c) ''next''"
  "containsCI c ''node'' = includes_str (toLowerCase c) ''node''"
  "containsCI c ''pkill -f'' = includes_str (toLowerCase c) ''pkill -f''"
  "containsCI c ''rm -rf /'' = includes_str (toLowerCase c) ''rm -rf /''"
  "containsCI c ''rm -rf /.'' = includes_str (toLowerCase c) ''rm -rf /.''"
  "containsCI c ''npm run dev'' = includes_str (toLowerCase c) ''npm run dev''"
  "containsCI c ''npm start'' = includes_str (toLowerCase c) ''npm start''"
  "containsCI c ''npm run start'' = includes_str (toLowerCase c) ''npm run start''"
  "containsCI c ''&'' = includes_str (toLowerCase c) ''&''"
  by (simp_all only: containsCI_def toLowerCase_patterns)

lemmas spec_rules = spec_dangerous_def spec_rule1_def spec_rule2_def spec_rule3_def
  spec_rule4_def spec_rule5_def

text \<open>Whatever the code blocks, some rule asks for, and it gives a reason.\<close>

lemma isDangerousCommand_sound:
  assumes "dangerous (isDangerousCommand c)"
  shows "spec_dangerous c \<and> (\<exists>r. reason (isDangerousCommand c) = Some r \<and> r \<noteq> [])"
  using assms kill_KILL_never_matches[of c]
  unfolding isDangerousCommand_def Let_def spec_rules containsCI_lower
  by (auto split: if_splits)

text \<open>A command that matches no rule passes.\<close>

lemma isDangerousCommand_passes:
  assumes "\<not> spec_dangerous c"
  shows "isDangerousCommand c = \<lparr>dangerous = False, reason = None\<rparr>"
  using assms kill_KILL_never_matches[of c]
  unfolding isDangerousCommand_def Let_def spec_rules containsCI_lower
  by (auto split: if_splits)

text \<open>
  A command that matches a rule and still passes contains \<open>kill -kill\<close> in some
  letter case.
\<close>

lemma isDangerousCommand_missed:
  assumes "spec_dangerous c" and "\<not> dangerous (isDangerousCommand c)"
  shows "containsCI c ''kill -KILL''"
  using assms kill_KILL_never_matches[of c]
  unfolding isDangerousCommand_def Let_def spec_rules containsCI_lower
  by (auto split: if_splits)

text \<open>
  Claim C1. Every command matching one of the five rules is reported dangerous with a
  non-empty reason, and every other command is reported not dangerous. The code departs
  from this: the command \<open>kill -KILL 1234\<close> matches rule 2, yet the filter returns
  \<open>dangerous: false\<close> without a reason, because the pattern \<open>kill -KILL\<close> is
  searched in the lowered command.
\<close>

theorem isDangerousCommand_rule2_unblocked:
  "spec_rule2 ''kill -KILL 1234'' \<and> spec_dangerous ''kill -KILL 1234''
   \<and> isDangerousCommand ''kill -KILL 1234'' = \<lparr>dangerous = False, reason = None\<rparr>"
  by code_simp

text \<open>
  Claim C2. Every command containing \<open>kill -KILL\<close> is reported dangerous. The code
  departs from this: \<open>sudo kill -KILL 42\<close> contains the substring and is reported not
  dangerous.
\<close>

theorem kill_KILL_passes_filter:
  "includes_str ''sudo kill -KILL 42'' ''kill -KILL''
   \<and> \<not> dangerous (isDangerousCommand ''sudo kill -KILL 42'')"
  by code_simp

section \<open>Properties of the built-in tools\<close>

lemma result_failure [simp]:
  "tr_success (failure m) = False" "tr_error (failure m) = Some m" "tr_output (failure m) = []"
  by (simp_all add: failure_def)

lemma result_ok [simp]:
  "tr_success (ok m) = True" "tr_error (ok m) = None" "tr_output (ok m) = m"
  by (simp_all add: ok_def)

text \<open>A result carries an error exactly when it is not a success.\<close>

lemma executeRead_consistent:
  "executeRead env inp cwd w = (Inr r, w1) \<Longrightarrow> tr_success r = (tr_error r = None)"
  by (auto simp: executeRead_def split: sum.splits if_splits)

lemma executeWrite_consistent:
  "executeWrite env inp cwd w = (Inr r, w1) \<Longrightarrow> tr_success r = (tr_error r = None)"
  by (auto simp: executeWrite_def Let_def split: sum.splits if_splits)

lemma executeEdit_consistent:
  "executeEdit env inp cwd w = (Inr r, w1) \<Longrightarrow> tr_success r = (tr_error r = None)"
  by (auto simp: executeEdit_def split: sum.splits if_splits)

lemma executeBash_consistent:
  "executeBash env inp cwd w = (Inr r, w1) \<Longrightarrow> tr_success r = (tr_error r = None)"
  by (auto simp: executeBash_def Let_def throw_type_error_def
           split: sum.splits if_splits jsval.splits prod.splits)

lemma executeGlob_consistent:
  "executeGlob env inp cwd w = (Inr r, w1) \<Longrightarrow> tr_success r = (tr_error r = None)"
  by (auto simp: executeGlob_def split: sum.splits if_splits prod.splits)

lemma executeGrep_consistent:
  "executeGrep env inp cwd w = (Inr r, w1) \<Longrightarrow> tr_success r = (tr_error r = None)"
  by (auto simp: executeGrep_def split: sum.splits if_splits prod.splits)

lemma executeList_consistent:
  "executeList env inp cwd w = (Inr r, w1) \<Longrightarrow> tr_success r = (tr_error r = None)"
  by (auto simp: executeList_def split: sum.splits if_splits)

lemma callTool_returns:
  "\<exists>r w1. callTool env conns n inp w = (Inr r, w1) \<and> tr_success r = (tr_error r = None)"
  by (auto simp: callTool_def split: option.splits prod.splits call_outcome.splits)

lemma builtinTool_consistent:
  "builtinTool env conns n inp cwd w = (Inr r, w1) \<Longrightarrow> tr_success r = (tr_error r = None)"
  unfolding builtinTool_def Let_def
  by (auto split: if_splits simp: unknownTool_def Let_def
       dest: executeRead_consistent executeWrite_consistent executeEdit_consistent
             executeBash_consistent executeGlob_consistent executeGrep_consistent
             executeList_consistent)

lemma executeTool_returns: "\<exists>r w1. executeTool env conns n inp cwd w = (Inr r, w1)"
proof (cases "isMcpTool conns n")
  case True
  then show ?thesis using callTool_returns[of env conns n inp w] by (auto simp: executeTool_def)
next
  case False
  then show ?thesis
    by (cases "builtinTool env conns n inp cwd w") (auto simp: executeTool_def split: sum.splits)
qed

lemma executeTool_consistent:
  "executeTool env conns n inp cwd w = (Inr r, w1) \<Longrightarrow> tr_success r = (tr_error r = None)"
proof (cases "isMcpTool conns n")
  case True
  assume "executeTool env conns n inp cwd w = (Inr r, w1)"
  with True show ?thesis using callTool_returns[of env conns n inp w] by (auto simp: executeTool_def)
next
  case False
  assume a: "executeTool env conns n inp cwd w = (Inr r, w1)"
  obtain res w2 where b: "builtinTool env conns n inp cwd w = (res, w2)"
    by (cases "builtinTool env conns n inp cwd w")
  show ?thesis
  proof (cases res)
    case (Inl e)
    with False a b show ?thesis by (auto simp: executeTool_def)
  next
    case (Inr r')
    with False a b have "r' = r" by (simp add: executeTool_def)
    with b Inr show ?thesis using builtinTool_consistent by blast
  qed
qed

subsection \<open>Dispatch: where a call goes\<close>

lemma isMcpTool_iff:
  "isMcpTool conns n \<longleftrightarrow> (\<exists>(srv, c) \<in> set conns. n \<in> tool_name ` set (tools c))"
  by (auto simp: isMcpTool_def list_ex_iff)

lemma findServerForTool_first:
  assumes "conns = pre @ (srv, c) # post" and "n \<in> tool_name ` set (tools c)"
    and "\<forall>(s', c') \<in> set pre. n \<notin> tool_name ` set (tools c')"
  shows "findServerForTool conns n = Some srv"
  using assms
proof (induction pre arbitrary: conns)
  case Nil
  then show ?case by (auto simp: findServerForTool_def list_ex_iff)
next
  case (Cons a pre)
  obtain s' c' where a: "a = (s', c')" by (cases a)
  from Cons.prems(3) a have n: "\<not> list_ex (\<lambda>t. tool_name t = n) (tools c')"
    by (auto simp: list_ex_iff)
  from Cons.IH[OF refl Cons.prems(2)] Cons.prems(3)
  have "findServerForTool (pre @ (srv, c) # post) n = Some srv" by auto
  with n a Cons.prems(1) show ?case by (simp add: findServerForTool_def)
qed

lemma map_of_present: "conns = pre @ (srv, c) # post \<Longrightarrow> \<exists>c'. map_of conns srv = Some c'"
  by (cases "map_of conns srv") (auto simp: map_of_eq_None_iff)

text \<open>A plugin tool: the call goes to the first server that lists it.\<close>

lemma callTool_routed:
  assumes "conns = pre @ (srv, c) # post" and "n \<in> tool_name ` set (tools c)"
    and "\<forall>(s', c') \<in> set pre. n \<notin> tool_name ` set (tools c')"
  shows "executeTool env conns n inp cwd w =
     (if srv = [] then (Inr (failure (''Tool '' @ dq @ n @ dq @ '' not found in any MCP server'')), w)
      else (case callRemote env srv n inp w of
              (CallResolved content, w1) \<Rightarrow>
                (Inr (ok (join_with [CHR 0x0A]
                   (map block_text (filter is_text_block (case content of None \<Rightarrow> [] | Some bs \<Rightarrow> bs))))),
                 w1)
            | (CallRejected e, w1) \<Rightarrow> (Inr (failure (error_message_or e ''Unknown error'')), w1)
            | (CallTimedOut, w1) \<Rightarrow> (Inr (failure (''Tool call '' @ n @ '' timed out'')), w1)))"
proof -
  have m: "isMcpTool conns n" using assms(1,2) by (auto simp: isMcpTool_iff)
  from map_of_present[OF assms(1)] obtain c' where c': "map_of conns srv = Some c'" by blast
  show ?thesis
    using m c' findServerForTool_first[OF assms]
    by (simp add: executeTool_def callTool_def)
qed


subsection \<open>When a built-in tool succeeds\<close>

text \<open>
  For each built-in tool, the result is a success exactly when the path or command was
  given in a usable form and the operation on the file system or the shell went through.
\<close>

lemma lower_names:
  "toLowerCase ''read'' = ''read''" "toLowerCase ''write'' = ''write''"
  "toLowerCase ''edit'' = ''edit''" "toLowerCase ''bash'' = ''bash''"
  "toLowerCase ''glob'' = ''glob''" "toLowerCase ''grep'' = ''grep''"
  "toLowerCase ''list'' = ''list''" "toLowerCase ''ls'' = ''ls''"
  by code_simp+

lemma executeTool_builtin:
  assumes "\<not> isMcpTool conns n"
  shows "executeTool env conns n inp cwd w =
     (case builtinTool env conns n inp cwd w of
        (Inr r, w1) \<Rightarrow> (Inr r, w1)
      | (Inl e, w1) \<Rightarrow> (Inr (failure (error_message_or e ''Unknown error'')), w1))"
  using assms by (simp add: executeTool_def)

lemma read_success_iff:
  assumes "\<not> isMcpTool conns n" and "toLowerCase n = ''read''"
    and "fst (executeTool env conns n (Props f) cwd w) = Inr r"
  shows "tr_success r \<longleftrightarrow>
           truthy (js_or (js_or (f ''file_path'') (f ''path'')) (f ''file''))
           \<and> (\<exists>full. resolvePath env cwd (js_or (js_or (f ''file_path'') (f ''path'')) (f ''file''))
                            = Inr full
                  \<and> files w full \<noteq> None)"
  using assms(3) unfolding executeTool_builtin[OF assms(1)] builtinTool_def Let_def assms(2)
  by (auto simp: executeRead_def alias3_def readFileSync_def split: sum.splits if_splits option.splits)

lemma write_success_iff:
  assumes "\<not> isMcpTool conns n" and "toLowerCase n = ''write''"
    and "fst (executeTool env conns n (Props f) cwd w) = Inr r"
  shows "tr_success r \<longleftrightarrow>
           truthy (js_or (js_or (f ''file_path'') (f ''path'')) (f ''file''))
           \<and> (\<exists>full s. resolvePath env cwd (js_or (js_or (f ''file_path'') (f ''path'')) (f ''file''))
                            = Inr full
                  \<and> js_or (js_or (f ''content'') (f ''text'')) (f ''data'') = JStr s
                  \<and> (existsSync w (dirname env full) \<or> mkdir_error env (dirname env full) = None)
                  \<and> write_error env full = None)"
  using assms(3) unfolding executeTool_builtin[OF assms(1)] builtinTool_def Let_def assms(2)
  by (auto simp: executeWrite_def alias3_def writeFileSync_def mkdirSync_def throw_type_error_def Let_def
           split: sum.splits if_splits option.splits jsval.splits)

lemma edit_success_iff:
  assumes "\<not> isMcpTool conns n" and "toLowerCase n = ''edit''"
    and "fst (executeTool env conns n (Props f) cwd w) = Inr r"
  shows "tr_success r \<longleftrightarrow>
           truthy (js_or (js_or (f ''file_path'') (f ''path'')) (f ''file''))
           \<and> js_or (js_or (f ''old_string'') (f ''old'')) (f ''find'') \<noteq> JUndefined
           \<and> js_or (js_or (f ''new_string'') (f ''new'')) (f ''replace'') \<noteq> JUndefined
           \<and> (\<exists>full content.
                  resolvePath env cwd (js_or (js_or (f ''file_path'') (f ''path'')) (f ''file'')) = Inr full
                  \<and> files w full = Some content
                  \<and> includes_str content
                       (template env (js_or (js_or (f ''old_string'') (f ''old'')) (f ''find'')))
                  \<and> write_error env full = None)"
  using assms(3) unfolding executeTool_builtin[OF assms(1)] builtinTool_def Let_def assms(2)
  by (auto simp: executeEdit_def alias3_def readFileSync_def writeFileSync_def
           split: sum.splits if_splits option.splits)

lemma bash_success_iff:
  assumes "\<not> isMcpTool conns n" and "toLowerCase n = ''bash''"
    and "fst (executeTool env conns n (Props f) cwd w) = Inr r"
  shows "tr_success r \<longleftrightarrow>
           (\<exists>cmd out. js_or (f ''command'') (f ''cmd'') = JStr cmd \<and> cmd \<noteq> []
                  \<and> \<not> dangerous (isDangerousCommand cmd)
                  \<and> fst (execSync env cmd (bashOptions cwd) w) = Inr out)"
  using assms(3) unfolding executeTool_builtin[OF assms(1)] builtinTool_def Let_def assms(2)
  by (auto simp: executeBash_def alias2_def throw_type_error_def Let_def
           split: sum.splits if_splits option.splits jsval.splits prod.splits)

lemma glob_success_iff:
  assumes "\<not> isMcpTool conns n" and "toLowerCase n = ''glob''"
    and "fst (executeTool env conns n (Props f) cwd w) = Inr r"
  shows "tr_success r \<longleftrightarrow>
           truthy (js_or (f ''pattern'') (f ''glob''))
           \<and> (\<exists>out. fst (execSync env (globCommand env (js_or (f ''pattern'') (f ''glob'')))
                              (globOptions cwd) w) = Inr out)"
  using assms(3) unfolding executeTool_builtin[OF assms(1)] builtinTool_def Let_def assms(2)
  by (auto simp: executeGlob_def alias2_def split: sum.splits if_splits prod.splits)

lemma grep_success_iff:
  assumes "\<not> isMcpTool conns n" and "toLowerCase n = ''grep''"
    and "fst (executeTool env conns n (Props f) cwd w) = Inr r"
  shows "tr_success r \<longleftrightarrow>
           truthy (js_or (js_or (f ''pattern'') (f ''query'')) (f ''search''))
           \<and> (\<exists>full out.
                 resolvePath env cwd (js_or (js_or (f ''path'') (f ''directory'')) (JStr ''.'')) = Inr full
                 \<and> fst (execSync env
                          (grepCommand env (js_or (js_or (f ''pattern'') (f ''query'')) (f ''search'')) full)
                          grepOptions w) = Inr out)"
  using assms(3) unfolding executeTool_builtin[OF assms(1)] builtinTool_def Let_def assms(2)
  by (auto simp: executeGrep_def alias3_def alias2_dot_def split: sum.splits if_splits prod.splits)

lemma list_success_iff:
  assumes "\<not> isMcpTool conns n" and "toLowerCase n = ''list'' \<or> toLowerCase n = ''ls''"
    and "fst (executeTool env conns n (Props f) cwd w) = Inr r"
  shows "tr_success r \<longleftrightarrow>
           (\<exists>full entries.
                 resolvePath env cwd (js_or (js_or (f ''path'') (f ''directory'')) (JStr ''.'')) = Inr full
                 \<and> readdir env w full = Inr entries)"
  using assms(2,3) unfolding executeTool_builtin[OF assms(1)] builtinTool_def Let_def
  by (auto simp: executeList_def alias2_dot_def split: sum.splits if_splits prod.splits)


text \<open>A \<open>null\<close> input makes every built-in tool fail on its first property read.\<close>

lemma builtin_null_input:
  assumes "\<not> isMcpTool conns n"
    and "toLowerCase n \<in> {''read'', ''write'', ''edit'', ''bash'', ''glob'', ''grep'', ''list'', ''ls''}"
  shows "\<exists>k. executeTool env conns n Nullish cwd w
              = (Inr (failure (type_error_msg env (NullRead k))), w)"
  using assms(2) unfolding executeTool_builtin[OF assms(1)] builtinTool_def Let_def
  by (auto simp: executeRead_def executeWrite_def executeEdit_def executeBash_def executeGlob_def
        executeGrep_def executeList_def alias3_def alias2_def alias2_dot_def throw_type_error_def)

lemma unknown_tool_message:
  assumes "\<not> isMcpTool conns n"
    and "toLowerCase n \<notin> {''read'', ''write'', ''edit'', ''bash'', ''glob'', ''grep'', ''list'', ''ls''}"
  shows "executeTool env conns n inp cwd w
          = (Inr (failure (''Unknown tool: '' @ n
                @ ''. Built-in tools: Read, Write, Edit, Bash, Glob, Grep, List. MCP tools: ''
                @ (if join_with '', '' (concat (map (\<lambda>(srv, c). map tool_name (tools c)) conns)) = []
                   then ''none configured''
                   else join_with '', '' (concat (map (\<lambda>(srv, c). map tool_name (tools c)) conns))))), w)"
proof -
  have m: "map (\<lambda>(serverName, t). tool_name t) (getAllTools conns)
             = concat (map (\<lambda>(srv, c). map tool_name (tools c)) conns)"
    unfolding getAllTools_def by (induction conns) (auto simp: comp_def)
  from assms(2) show ?thesis
    unfolding executeTool_builtin[OF assms(1)] builtinTool_def Let_def
    by (simp add: unknownTool_def Let_def str_or_def m)
qed

subsection \<open>The edit tool\<close>

lemma executeEdit_not_found:
  assumes "js_or (js_or (f ''file_path'') (f ''path'')) (f ''file'') = JStr p" and "p \<noteq> []"
    and "js_or (js_or (f ''old_string'') (f ''old'')) (f ''find'') = JStr old"
    and "js_or (js_or (f ''new_string'') (f ''new'')) (f ''replace'') = JStr new"
    and "resolvePath env cwd (JStr p) = Inr full" and "files w full = Some content"
    and "\<not> includes_str content old"
  shows "executeEdit env (Props f) cwd w
          = (Inr (failure
               ''Could not find the specified text in the file. Make sure old_string matches exactly.''),
             w)"
  using assms by (simp add: executeEdit_def alias3_def readFileSync_def template_def)

lemma executeEdit_first_occurrence:
  assumes "js_or (js_or (f ''file_path'') (f ''path'')) (f ''file'') = JStr p" and "p \<noteq> []"
    and "js_or (js_or (f ''old_string'') (f ''old'')) (f ''find'') = JStr old"
    and "js_or (js_or (f ''new_string'') (f ''new'')) (f ''replace'') = JStr new"
    and "CHR ''$'' \<notin> set new"
    and "resolvePath env cwd (JStr p) = Inr full" and "files w full = Some content"
    and "write_error env full = None"
    and "includes_str content old"
  shows "\<exists>b a. content = b @ old @ a
           \<and> (\<forall>b' a'. content = b' @ old @ a' \<longrightarrow> length b \<le> length b')
           \<and> executeEdit env (Props f) cwd w
               = (Inr (ok (''Successfully edited '' @ p)),
                  w\<lparr>files := (files w)(full \<mapsto> b @ new @ a)\<rparr>)"
proof -
  from replace_first_occurrence[OF assms(9) assms(5)] obtain b a where
    ba: "content = b @ old @ a" "\<forall>b' a'. content = b' @ old @ a' \<longrightarrow> length b \<le> length b'"
        "replace content old new = b @ new @ a" by blast
  have "executeEdit env (Props f) cwd w
          = (Inr (ok (''Successfully edited '' @ p)),
             w\<lparr>files := (files w)(full \<mapsto> b @ new @ a)\<rparr>)"
    using assms ba(3)
    by (simp add: executeEdit_def alias3_def readFileSync_def template_def writeFileSync_def)
  with ba show ?thesis by blast
qed

text \<open>
  A replacement pattern in \<open>new_string\<close> is expanded, not copied: replacing \<open>b\<close> by
  \<open>$&$&\<close> in \<open>abc\<close> writes \<open>abbc\<close>.
\<close>

lemma executeEdit_expands_dollar_patterns:
  "replace ''abc'' ''b'' ''$&$&'' = ''abbc''
   \<and> executeTool test_env [] ''edit''
        (obj [(''path'', JStr ''/f''), (''old_string'', JStr ''b''), (''new_string'', JStr ''$&$&'')])
        ''/w'' (one_file ''/f'' ''abc'')
      = (Inr \<lparr>tr_success = True, tr_output = ''Successfully edited /f'', tr_error = None\<rparr>,
         \<lparr>files = [''/f'' \<mapsto> ''abbc''], dirs = {''/''}\<rparr>)"
proof -
  have r: "replace ''abc'' ''b'' ''$&$&'' = ''abbc''" by code_simp
  show ?thesis
    by (simp add: r lower_names executeTool_def isMcpTool_def builtinTool_def executeEdit_def
        alias3_def obj_def js_or_def resolvePath_def readFileSync_def writeFileSync_def
        template_def ok_def test_env_def one_file_def)
qed

text \<open>
  Claim C5. If the content does not contain \<open>old_string\<close> the edit tool fails and
  leaves the file alone; if it does, the tool replaces the first occurrence by
  \<open>new_string\<close> and rewrites the file. The code departs from this for an empty
  \<open>new_string\<close>: asked to replace \<open>o w\<close> in \<open>hello world\<close> by the empty
  string, it answers \<open>new_string is required\<close> and leaves the file as it was, because
  \<open>input.new_string || input.new || input.replace\<close> turns the empty string into
  \<open>undefined\<close>. The guard itself, \<open>newStr === undefined\<close>, lets an empty string
  through: the same call with the empty string under the last alias, \<open>replace\<close>,
  rewrites the file to \<open>hellorld\<close>.
\<close>

theorem executeEdit_rejects_empty_replacement:
  "includes_str ''hello world'' ''o w''
   \<and> executeTool test_env [] ''edit''
        (obj [(''path'', JStr ''/f''), (''old_string'', JStr ''o w''), (''new_string'', JStr [])])
        ''/w'' (one_file ''/f'' ''hello world'')
      = (Inr \<lparr>tr_success = False, tr_output = [], tr_error = Some ''new_string is required''\<rparr>,
         one_file ''/f'' ''hello world'')
   \<and> executeTool test_env [] ''edit''
        (obj [(''path'', JStr ''/f''), (''old_string'', JStr ''o w''), (''replace'', JStr [])])
        ''/w'' (one_file ''/f'' ''hello world'')
      = (Inr \<lparr>tr_success = True, tr_output = ''Successfully edited /f'', tr_error = None\<rparr>,
         \<lparr>files = [''/f'' \<mapsto> ''hellorld''], dirs = {''/''}\<rparr>)"
proof -
  have i: "includes_str ''hello world'' ''o w''" by code_simp
  have r: "replace ''hello world'' ''o w'' [] = ''hellorld''" by code_simp
  show ?thesis
    by (simp add: i r lower_names executeTool_def isMcpTool_def builtinTool_def executeEdit_def
        alias3_def obj_def js_or_def resolvePath_def readFileSync_def writeFileSync_def
        template_def ok_def failure_def test_env_def one_file_def)
qed

lemma plugin_result:
  assumes "executeTool env conns n inp cwd w = (Inr r, w1)"
  shows "\<forall>pre srv c post.
           conns = pre @ (srv, c) # post \<and> n \<in> tool_name ` set (tools c)
           \<and> (\<forall>(s', c') \<in> set pre. n \<notin> tool_name ` set (tools c'))
           \<longrightarrow> w1 = (if srv = [] then w else snd (callRemote env srv n inp w))
               \<and> (tr_success r \<longleftrightarrow>
                     srv \<noteq> [] \<and> (\<exists>content. fst (callRemote env srv n inp w) = CallResolved content))
               \<and> (\<forall>e. srv \<noteq> [] \<and> fst (callRemote env srv n inp w) = CallRejected e
                      \<longrightarrow> tr_error r = Some (error_message_or e ''Unknown error''))
               \<and> (srv \<noteq> [] \<and> fst (callRemote env srv n inp w) = CallTimedOut
                      \<longrightarrow> tr_error r = Some (''Tool call '' @ n @ '' timed out''))"
proof (intro allI impI)
  fix pre srv c post
  assume "conns = pre @ (srv, c) # post \<and> n \<in> tool_name ` set (tools c)
           \<and> (\<forall>(s', c') \<in> set pre. n \<notin> tool_name ` set (tools c'))"
  then have a: "conns = pre @ (srv, c) # post" "n \<in> tool_name ` set (tools c)"
    "\<forall>(s', c') \<in> set pre. n \<notin> tool_name ` set (tools c')" by blast+
  note ct = callTool_routed[OF a, of env inp cwd w]
  obtain o' w' where cr: "callRemote env srv n inp w = (o', w')" by (cases "callRemote env srv n inp w")
  show "w1 = (if srv = [] then w else snd (callRemote env srv n inp w))
               \<and> (tr_success r \<longleftrightarrow>
                     srv \<noteq> [] \<and> (\<exists>content. fst (callRemote env srv n inp w) = CallResolved content))
               \<and> (\<forall>e. srv \<noteq> [] \<and> fst (callRemote env srv n inp w) = CallRejected e
                      \<longrightarrow> tr_error r = Some (error_message_or e ''Unknown error''))
               \<and> (srv \<noteq> [] \<and> fst (callRemote env srv n inp w) = CallTimedOut
                      \<longrightarrow> tr_error r = Some (''Tool call '' @ n @ '' timed out''))"
    using assms unfolding ct cr by (cases o') (auto split: if_splits)
qed


lemma thrown_result:
  assumes "executeTool env conns n inp cwd w = (Inr r, w1)"
  shows "\<forall>e w2. (\<forall>(srv, c) \<in> set conns. n \<notin> tool_name ` set (tools c)) \<and> builtinTool env conns n inp cwd w = (Inl e, w2)
           \<longrightarrow> r = \<lparr>tr_success = False, tr_output = [],
                     tr_error = Some (error_message_or e ''Unknown error'')\<rparr> \<and> w1 = w2"
proof (intro allI impI, elim conjE)
  fix e w2
  assume "\<forall>(srv, c) \<in> set conns. n \<notin> tool_name ` set (tools c)" and b: "builtinTool env conns n inp cwd w = (Inl e, w2)"
  then have nm: "\<not> isMcpTool conns n" unfolding isMcpTool_iff by blast
  from assms b show "r = \<lparr>tr_success = False, tr_output = [],
                     tr_error = Some (error_message_or e ''Unknown error'')\<rparr> \<and> w1 = w2"
    unfolding executeTool_builtin[OF nm] by (simp add: failure_def)
qed


lemma null_result:
  assumes "executeTool env conns n inp cwd w = (Inr r, w1)"
  shows "(\<forall>(srv, c) \<in> set conns. n \<notin> tool_name ` set (tools c)) \<and> inp = Nullish
         \<and> toLowerCase n \<in> {''read'', ''write'', ''edit'', ''bash'', ''glob'', ''grep'', ''list'', ''ls''}
           \<longrightarrow> \<not> tr_success r \<and> w1 = w"
proof (intro impI, elim conjE)
  assume "\<forall>(srv, c) \<in> set conns. n \<notin> tool_name ` set (tools c)" and i: "inp = Nullish"
    and l: "toLowerCase n \<in> {''read'', ''write'', ''edit'', ''bash'', ''glob'', ''grep'', ''list'', ''ls''}"
  then have nm: "\<not> isMcpTool conns n" unfolding isMcpTool_iff by blast
  from builtin_null_input[OF nm l, of env cwd w] assms i show "\<not> tr_success r \<and> w1 = w" by auto
qed


lemma read_result:
  assumes "executeTool env conns n inp cwd w = (Inr r, w1)"
  shows "\<forall>f. (\<forall>(srv, c) \<in> set conns. n \<notin> tool_name ` set (tools c)) \<and> inp = Props f \<and> toLowerCase n = ''read'' \<longrightarrow>
          (tr_success r \<longleftrightarrow>
             truthy (js_or (js_or (f ''file_path'') (f ''path'')) (f ''file''))
             \<and> (\<exists>full. resolvePath env cwd (js_or (js_or (f ''file_path'') (f ''path'')) (f ''file''))
                              = Inr full
                    \<and> files w full \<noteq> None))"
proof (intro allI impI, elim conjE)
  fix f
  assume "\<forall>(srv, c) \<in> set conns. n \<notin> tool_name ` set (tools c)" and i: "inp = Props f" and l: "toLowerCase n = ''read''"
  then have nm: "\<not> isMcpTool conns n" unfolding isMcpTool_iff by blast
  from assms have rw: "fst (executeTool env conns n (Props f) cwd w) = Inr r" by (simp add: i)
  from read_success_iff[OF nm l rw] show "tr_success r \<longleftrightarrow>
             truthy (js_or (js_or (f ''file_path'') (f ''path'')) (f ''file''))
             \<and> (\<exists>full. resolvePath env cwd (js_or (js_or (f ''file_path'') (f ''path'')) (f ''file''))
                              = Inr full
                    \<and> files w full \<noteq> None)" .
qed


lemma write_result:
  assumes "executeTool env conns n inp cwd w = (Inr r, w1)"
  shows "\<forall>f. (\<forall>(srv, c) \<in> set conns. n \<notin> tool_name ` set (tools c)) \<and> inp = Props f \<and> toLowerCase n = ''write'' \<longrightarrow>
          (tr_success r \<longleftrightarrow>
             truthy (js_or (js_or (f ''file_path'') (f ''path'')) (f ''file''))
             \<and> (\<exists>full s. resolvePath env cwd (js_or (js_or (f ''file_path'') (f ''path'')) (f ''file''))
                              = Inr full
                    \<and> js_or (js_or (f ''content'') (f ''text'')) (f ''data'') = JStr s
                    \<and> (existsSync w (dirname env full) \<or> mkdir_error env (dirname env full) = None)
                    \<and> write_error env full = None))"
proof (intro allI impI, elim conjE)
  fix f
  assume "\<forall>(srv, c) \<in> set conns. n \<notin> tool_name ` set (tools c)" and i: "inp = Props f" and l: "toLowerCase n = ''write''"
  then have nm: "\<not> isMcpTool conns n" unfolding isMcpTool_iff by blast
  from assms have rw: "fst (executeTool env conns n (Props f) cwd w) = Inr r" by (simp add: i)
  from write_success_iff[OF nm l rw] show "tr_success r \<longleftrightarrow>
             truthy (js_or (js_or (f ''file_path'') (f ''path'')) (f ''file''))
             \<and> (\<exists>full s. resolvePath env cwd (js_or (js_or (f ''file_path'') (f ''path'')) (f ''file''))
                              = Inr full
                    \<and> js_or (js_or (f ''content'') (f ''text'')) (f ''data'') = JStr s
                    \<and> (existsSync w (dirname env full) \<or> mkdir_error env (dirname env full) = None)
                    \<and> write_error env full = None)" .
qed


lemma edit_result:
  assumes "executeTool env conns n inp cwd w = (Inr r, w1)"
  shows "\<forall>f. (\<forall>(srv, c) \<in> set conns. n \<notin> tool_name ` set (tools c)) \<and> inp = Props f \<and> toLowerCase n = ''edit'' \<longrightarrow>
          (tr_success r \<longleftrightarrow>
             truthy (js_or (js_or (f ''file_path'') (f ''path'')) (f ''file''))
             \<and> js_or (js_or (f ''old_string'') (f ''old'')) (f ''find'') \<noteq> JUndefined
             \<and> js_or (js_or (f ''new_string'') (f ''new'')) (f ''replace'') \<noteq> JUndefined
             \<and> (\<exists>full content.
                    resolvePath env cwd (js_or (js_or (f ''file_path'') (f ''path'')) (f ''file'')) = Inr full
                    \<and> files w full = Some content
                    \<and> includes_str content
                         (template env (js_or (js_or (f ''old_string'') (f ''old'')) (f ''find'')))
                    \<and> write_error env full = None))"
proof (intro allI impI, elim conjE)
  fix f
  assume "\<forall>(srv, c) \<in> set conns. n \<notin> tool_name ` set (tools c)" and i: "inp = Props f" and l: "toLowerCase n = ''edit''"
  then have nm: "\<not> isMcpTool conns n" unfolding isMcpTool_iff by blast
  from assms have rw: "fst (executeTool env conns n (Props f) cwd w) = Inr r" by (simp add: i)
  from edit_success_iff[OF nm l rw] show "tr_success r \<longleftrightarrow>
             truthy (js_or (js_or (f ''file_path'') (f ''path'')) (f ''file''))
             \<and> js_or (js_or (f ''old_string'') (f ''old'')) (f ''find'') \<noteq> JUndefined
             \<and> js_or (js_or (f ''new_string'') (f ''new'')) (f ''replace'') \<noteq> JUndefined
             \<and> (\<exists>full content.
                    resolvePath env cwd (js_or (js_or (f ''file_path'') (f ''path'')) (f ''file'')) = Inr full
                    \<and> files w full = Some content
                    \<and> includes_str content
                         (template env (js_or (js_or (f ''old_string'') (f ''old'')) (f ''find'')))
                    \<and> write_error env full = None)" .
qed


lemma bash_result:
  assumes "executeTool env conns n inp cwd w = (Inr r, w1)"
  shows "\<forall>f. (\<forall>(srv, c) \<in> set conns. n \<notin> tool_name ` set (tools c)) \<and> inp = Props f \<and> toLowerCase n = ''bash'' \<longrightarrow>
          (tr_success r \<longleftrightarrow>
             (\<exists>cmd out. js_or (f ''command'') (f ''cmd'') = JStr cmd \<and> cmd \<noteq> []
                    \<and> \<not> dangerous (isDangerousCommand cmd)
                    \<and> fst (execSync env cmd (bashOptions cwd) w) = Inr out))"
proof (intro allI impI, elim conjE)
  fix f
  assume "\<forall>(srv, c) \<in> set conns. n \<notin> tool_name ` set (tools c)" and i: "inp = Props f" and l: "toLowerCase n = ''bash''"
  then have nm: "\<not> isMcpTool conns n" unfolding isMcpTool_iff by blast
  from assms have rw: "fst (executeTool env conns n (Props f) cwd w) = Inr r" by (simp add: i)
  from bash_success_iff[OF nm l rw] show "tr_success r \<longleftrightarrow>
             (\<exists>cmd out. js_or (f ''command'') (f ''cmd'') = JStr cmd \<and> cmd \<noteq> []
                    \<and> \<not> dangerous (isDangerousCommand cmd)
                    \<and> fst (execSync env cmd (bashOptions cwd) w) = Inr out)" .
qed


lemma glob_result:
  assumes "executeTool env conns n inp cwd w = (Inr r, w1)"
  shows "\<forall>f. (\<forall>(srv, c) \<in> set conns. n \<notin> tool_name ` set (tools c)) \<and> inp = Props f \<and> toLowerCase n = ''glob'' \<longrightarrow>
          (tr_success r \<longleftrightarrow>
             truthy (js_or (f ''pattern'') (f ''glob''))
             \<and> (\<exists>out. fst (execSync env (globCommand env (js_or (f ''pattern'') (f ''glob'')))
                                (globOptions cwd) w) = Inr out))"
proof (intro allI impI, elim conjE)
  fix f
  assume "\<forall>(srv, c) \<in> set conns. n \<notin> tool_name ` set (tools c)" and i: "inp = Props f" and l: "toLowerCase n = ''glob''"
  then have nm: "\<not> isMcpTool conns n" unfolding isMcpTool_iff by blast
  from assms have rw: "fst (executeTool env conns n (Props f) cwd w) = Inr r" by (simp add: i)
  from glob_success_iff[OF nm l rw] show "tr_success r \<longleftrightarrow>
             truthy (js_or (f ''pattern'') (f ''glob''))
             \<and> (\<exists>out. fst (execSync env (globCommand env (js_or (f ''pattern'') (f ''glob'')))
                                (globOptions cwd) w) = Inr out)" .
qed


lemma grep_result:
  assumes "executeTool env conns n inp cwd w = (Inr r, w1)"
  shows "\<forall>f. (\<forall>(srv, c) \<in> set conns. n \<notin> tool_name ` set (tools c)) \<and> inp = Props f \<and> toLowerCase n = ''grep'' \<longrightarrow>
          (tr_success r \<longleftrightarrow>
             truthy (js_or (js_or (f ''pattern'') (f ''query'')) (f ''search''))
             \<and> (\<exists>full out.
                   resolvePath env cwd (js_or (js_or (f ''path'') (f ''directory'')) (JStr ''.''))
                     = Inr full
                   \<and> fst (execSync env
                            (grepCommand env
                               (js_or (js_or (f ''pattern'') (f ''query'')) (f ''search'')) full)
                            grepOptions w) = Inr out))"
proof (intro allI impI, elim conjE)
  fix f
  assume "\<forall>(srv, c) \<in> set conns. n \<notin> tool_name ` set (tools c)" and i: "inp = Props f" and l: "toLowerCase n = ''grep''"
  then have nm: "\<not> isMcpTool conns n" unfolding isMcpTool_iff by blast
  from assms have rw: "fst (executeTool env conns n (Props f) cwd w) = Inr r" by (simp add: i)
  from grep_success_iff[OF nm l rw] show "tr_success r \<longleftrightarrow>
             truthy (js_or (js_or (f ''pattern'') (f ''query'')) (f ''search''))
             \<and> (\<exists>full out.
                   resolvePath env cwd (js_or (js_or (f ''path'') (f ''directory'')) (JStr ''.''))
                     = Inr full
                   \<and> fst (execSync env
                            (grepCommand env
                               (js_or (js_or (f ''pattern'') (f ''query'')) (f ''search'')) full)
                            grepOptions w) = Inr out)" .
qed


lemma list_result:
  assumes "executeTool env conns n inp cwd w = (Inr r, w1)"
  shows "\<forall>f. (\<forall>(srv, c) \<in> set conns. n \<notin> tool_name ` set (tools c)) \<and> inp = Props f \<and> (toLowerCase n = ''list'' \<or> toLowerCase n = ''ls'') \<longrightarrow>
          (tr_success r \<longleftrightarrow>
             (\<exists>full entries.
                   resolvePath env cwd (js_or (js_or (f ''path'') (f ''directory'')) (JStr ''.''))
                     = Inr full
                   \<and> readdir env w full = Inr entries))"
proof (intro allI impI, elim conjE)
  fix f
  assume "\<forall>(srv, c) \<in> set conns. n \<notin> tool_name ` set (tools c)" and i: "inp = Props f" and l: "toLowerCase n = ''list'' \<or> toLowerCase n = ''ls''"
  then have nm: "\<not> isMcpTool conns n" unfolding isMcpTool_iff by blast
  from assms have rw: "fst (executeTool env conns n (Props f) cwd w) = Inr r" by (simp add: i)
  from list_success_iff[OF nm l rw] show "tr_success r \<longleftrightarrow>
             (\<exists>full entries.
                   resolvePath env cwd (js_or (js_or (f ''path'') (f ''directory'')) (JStr ''.''))
                     = Inr full
                   \<and> readdir env w full = Inr entries)" .
qed


lemma unknown_result:
  assumes "executeTool env conns n inp cwd w = (Inr r, w1)"
  shows "(\<forall>(srv, c) \<in> set conns. n \<notin> tool_name ` set (tools c))
         \<and> toLowerCase n \<notin> {''read'', ''write'', ''edit'', ''bash'', ''glob'', ''grep'', ''list'', ''ls''}
           \<longrightarrow> r = \<lparr>tr_success = False, tr_output = [],
                     tr_error = Some (''Unknown tool: '' @ n
                       @ ''. Built-in tools: Read, Write, Edit, Bash, Glob, Grep, List. MCP tools: ''
                       @ (if join_with '', '' (concat (map (\<lambda>(srv, c). map tool_name (tools c)) conns)) = []
                          then ''none configured''
                          else join_with '', '' (concat (map (\<lambda>(srv, c). map tool_name (tools c)) conns))))\<rparr>
               \<and> w1 = w"
proof (intro impI, elim conjE)
  assume "\<forall>(srv, c) \<in> set conns. n \<notin> tool_name ` set (tools c)"
    and l: "toLowerCase n \<notin> {''read'', ''write'', ''edit'', ''bash'', ''glob'', ''grep'', ''list'', ''ls''}"
  then have nm: "\<not> isMcpTool conns n" unfolding isMcpTool_iff by blast
  from unknown_tool_message[OF nm l, of env inp cwd w] assms
  show "r = \<lparr>tr_success = False, tr_output = [],
                     tr_error = Some (''Unknown tool: '' @ n
                       @ ''. Built-in tools: Read, Write, Edit, Bash, Glob, Grep, List. MCP tools: ''
                       @ (if join_with '', '' (concat (map (\<lambda>(srv, c). map tool_name (tools c)) conns)) = []
                          then ''none configured''
                          else join_with '', '' (concat (map (\<lambda>(srv, c). map tool_name (tools c)) conns))))\<rparr>
               \<and> w1 = w"
    by (simp add: failure_def)
qed


subsection \<open>Dispatch\<close>

text \<open>
  Claim C6. For every tool name, input and working directory, \<open>executeTool\<close> settles
  with a result and never throws, and the result carries an error exactly when it is not
  a success. Every failure comes back as such a result. For a tool listed by a plugin
  server the call goes to the first server listing it, and the result is a success
  exactly when that server has a non-empty name and the remote call resolves; a rejection
  comes back with its message and a timeout with \<open>Tool call ... timed out\<close>. For any
  other tool: a throw inside a built-in tool comes back as an unsuccessful result with the
  thrown message; a \<open>null\<close> input fails; \<open>read\<close>, \<open>write\<close> and \<open>edit\<close>
  succeed exactly when the fields are given, the path resolves and the file system
  operations go through (and, for \<open>edit\<close>, the file contains the old text);
  \<open>bash\<close>, \<open>glob\<close> and \<open>grep\<close> succeed exactly when the command or pattern is
  given, the command is not blocked by the safety filter and \<open>execSync\<close> does not
  throw; \<open>list\<close> succeeds exactly when the directory can be read; and a name that is
  neither a plugin tool nor a built-in one is answered with the list of built-in tools and
  of the tool names of all connected plugin servers, or \<open>none configured\<close>.
\<close>

theorem executeTool_never_throws:
  "\<exists>r w1. executeTool env conns n inp cwd w = (Inr r, w1)
     \<and> (tr_success r \<longleftrightarrow> tr_error r = None)
     \<and> (\<forall>pre srv c post.
           conns = pre @ (srv, c) # post \<and> n \<in> tool_name ` set (tools c)
           \<and> (\<forall>(s', c') \<in> set pre. n \<notin> tool_name ` set (tools c'))
           \<longrightarrow> w1 = (if srv = [] then w else snd (callRemote env srv n inp w))
               \<and> (tr_success r \<longleftrightarrow>
                     srv \<noteq> [] \<and> (\<exists>content. fst (callRemote env srv n inp w) = CallResolved content))
               \<and> (\<forall>e. srv \<noteq> [] \<and> fst (callRemote env srv n inp w) = CallRejected e
                      \<longrightarrow> tr_error r = Some (error_message_or e ''Unknown error''))
               \<and> (srv \<noteq> [] \<and> fst (callRemote env srv n inp w) = CallTimedOut
                      \<longrightarrow> tr_error r = Some (''Tool call '' @ n @ '' timed out'')))
     \<and> (\<forall>e w2. (\<forall>(srv, c) \<in> set conns. n \<notin> tool_name ` set (tools c))
            \<and> builtinTool env conns n inp cwd w = (Inl e, w2)
           \<longrightarrow> r = \<lparr>tr_success = False, tr_output = [],
                     tr_error = Some (error_message_or e ''Unknown error'')\<rparr> \<and> w1 = w2)
     \<and> ((\<forall>(srv, c) \<in> set conns. n \<notin> tool_name ` set (tools c)) \<and> inp = Nullish
         \<and> toLowerCase n \<in> {''read'', ''write'', ''edit'', ''bash'', ''glob'', ''grep'', ''list'', ''ls''}
           \<longrightarrow> \<not> tr_success r \<and> w1 = w)
     \<and> (\<forall>f. (\<forall>(srv, c) \<in> set conns. n \<notin> tool_name ` set (tools c))
            \<and> inp = Props f \<and> toLowerCase n = ''read'' \<longrightarrow>
          (tr_success r \<longleftrightarrow>
             truthy (js_or (js_or (f ''file_path'') (f ''path'')) (f ''file''))
             \<and> (\<exists>full. resolvePath env cwd (js_or (js_or (f ''file_path'') (f ''path'')) (f ''file''))
                              = Inr full
                    \<and> files w full \<noteq> None)))
     \<and> (\<forall>f. (\<forall>(srv, c) \<in> set conns. n \<notin> tool_name ` set (tools c))
            \<and> inp = Props f \<and> toLowerCase n = ''write'' \<longrightarrow>
          (tr_success r \<longleftrightarrow>
             truthy (js_or (js_or (f ''file_path'') (f ''path'')) (f ''file''))
             \<and> (\<exists>full s. resolvePath env cwd (js_or (js_or (f ''file_path'') (f ''path'')) (f ''file''))
                              = Inr full
                    \<and> js_or (js_or (f ''content'') (f ''text'')) (f ''data'') = JStr s
                    \<and> (existsSync w (dirname env full) \<or> mkdir_error env (dirname env full) = None)
                    \<and> write_error env full = None)))
     \<and> (\<forall>f. (\<forall>(srv, c) \<in> set conns. n \<notin> tool_name ` set (tools c))
            \<and> inp = Props f \<and> toLowerCase n = ''edit'' \<longrightarrow>
          (tr_success r \<longleftrightarrow>
             truthy (js_or (js_or (f ''file_path'') (f ''path'')) (f ''file''))
             \<and> js_or (js_or (f ''old_string'') (f ''old'')) (f ''find'') \<noteq> JUndefined
             \<and> js_or (js_or (f ''new_string'') (f ''new'')) (f ''replace'') \<noteq> JUndefined
             \<and> (\<exists>full content.
                    resolvePath env cwd (js_or (js_or (f ''file_path'') (f ''path'')) (f ''file'')) = Inr full
                    \<and> files w full = Some content
                    \<and> includes_str content
                         (template env (js_or (js_or (f ''old_string'') (f ''old'')) (f ''find'')))
                    \<and> write_error env full = None)))
     \<and> (\<forall>f. (\<forall>(srv, c) \<in> set conns. n \<notin> tool_name ` set (tools c))
            \<and> inp = Props f \<and> toLowerCase n = ''bash'' \<longrightarrow>
          (tr_success r \<longleftrightarrow>
             (\<exists>cmd out. js_or (f ''command'') (f ''cmd'') = JStr cmd \<and> cmd \<noteq> []
                    \<and> \<not> dangerous (isDangerousCommand cmd)
                    \<and> fst (execSync env cmd (bashOptions cwd) w) = Inr out)))
     \<and> (\<forall>f. (\<forall>(srv, c) \<in> set conns. n \<notin> tool_name ` set (tools c))
            \<and> inp = Props f \<and> toLowerCase n = ''glob'' \<longrightarrow>
          (tr_success r \<longleftrightarrow>
             truthy (js_or (f ''pattern'') (f ''glob''))
             \<and> (\<exists>out. fst (execSync env (globCommand env (js_or (f ''pattern'') (f ''glob'')))
                                (globOptions cwd) w) = Inr out)))
     \<and> (\<forall>f. (\<forall>(srv, c) \<in> set conns. n \<notin> tool_name ` set (tools c))
            \<and> inp = Props f \<and> toLowerCase n = ''grep'' \<longrightarrow>
          (tr_success r \<longleftrightarrow>
             truthy (js_or (js_or (f ''pattern'') (f ''query'')) (f ''search''))
             \<and> (\<exists>full out.
                   resolvePath env cwd (js_or (js_or (f ''path'') (f ''directory'')) (JStr ''.''))
                     = Inr full
                   \<and> fst (execSync env
                            (grepCommand env
                               (js_or (js_or (f ''pattern'') (f ''query'')) (f ''search'')) full)
                            grepOptions w) = Inr out)))
     \<and> (\<forall>f. (\<forall>(srv, c) \<in> set conns. n \<notin> tool_name ` set (tools c))
            \<and> inp = Props f \<and> (toLowerCase n = ''list'' \<or> toLowerCase n = ''ls'') \<longrightarrow>
          (tr_success r \<longleftrightarrow>
             (\<exists>full entries.
                   resolvePath env cwd (js_or (js_or (f ''path'') (f ''directory'')) (JStr ''.''))
                     = Inr full
                   \<and> readdir env w full = Inr entries)))
     \<and> ((\<forall>(srv, c) \<in> set conns. n \<notin> tool_name ` set (tools c))
         \<and> toLowerCase n \<notin> {''read'', ''write'', ''edit'', ''bash'', ''glob'', ''grep'', ''list'', ''ls''}
           \<longrightarrow> r = \<lparr>tr_success = False, tr_output = [],
                     tr_error = Some (''Unknown tool: '' @ n
                       @ ''. Built-in tools: Read, Write, Edit, Bash, Glob, Grep, List. MCP tools: ''
                       @ (if join_with '', '' (concat (map (\<lambda>(srv, c). map tool_name (tools c)) conns)) = []
                          then ''none configured''
                          else join_with '', '' (concat (map (\<lambda>(srv, c). map tool_name (tools c)) conns))))\<rparr>
               \<and> w1 = w)"
proof -
  obtain r w1 where rw: "executeTool env conns n inp cwd w = (Inr r, w1)"
    using executeTool_returns by blast
  have c: "tr_success r \<longleftrightarrow> tr_error r = None" using executeTool_consistent[OF rw] by simp
  show ?thesis
    by (intro exI[of _ r] exI[of _ w1] conjI)
       (rule rw c plugin_result[OF rw] thrown_result[OF rw] null_result[OF rw] read_result[OF rw]
             write_result[OF rw] edit_result[OF rw] bash_result[OF rw] glob_result[OF rw]
             grep_result[OF rw] list_result[OF rw] unknown_result[OF rw])+
qed

theorem executeTool_never_throws_witness:
  "executeTool test_env [] ''read'' Nullish ''/w'' (one_file ''/f'' ''abc'')
     = (Inr \<lparr>tr_success = False, tr_output = [], tr_error = Some ''TypeError''\<rparr>,
        one_file ''/f'' ''abc'')
   \<and> executeTool test_env [] ''read'' (obj [(''path'', JStr ''/missing'')]) ''/w'' (one_file ''/f'' ''abc'')
     = (Inr \<lparr>tr_success = False, tr_output = [],
             tr_error = Some ''Failed to read file: ENOENT: no such file or directory''\<rparr>,
        one_file ''/f'' ''abc'')
   \<and> executeTool (test_env\<lparr>callRemote := \<lambda>h n a w. (CallTimedOut, w)\<rparr>) test_conns ''files_search''
        (obj []) ''/w'' (one_file ''/f'' ''abc'')
     = (Inr \<lparr>tr_success = False, tr_output = [],
             tr_error = Some ''Tool call files_search timed out''\<rparr>,
        one_file ''/f'' ''abc'')
   \<and> executeTool test_env test_conns ''Frobnicate'' (obj []) ''/w'' (one_file ''/f'' ''abc'')
     = (Inr \<lparr>tr_success = False, tr_output = [],
             tr_error = Some ''Unknown tool: Frobnicate. Built-in tools: Read, Write, Edit, Bash, Glob, Grep, List. MCP tools: files_search''\<rparr>,
        one_file ''/f'' ''abc'')"
proof -
  let ?W = "one_file ''/f'' ''abc''"
  let ?slow = "test_env\<lparr>callRemote := \<lambda>h n a w. (CallTimedOut, w)\<rparr>"
  let ?c = "\<lparr>transport = StdioTransport ''files-server'' [] Map.empty,
             tools = [\<lparr>tool_name = ''files_search'', tool_description = None\<rparr>]\<rparr>"
  have lf: "toLowerCase ''Frobnicate'' = ''frobnicate''" by code_simp
  have a: "executeTool test_env [] ''read'' Nullish ''/w'' ?W
     = (Inr \<lparr>tr_success = False, tr_output = [], tr_error = Some ''TypeError''\<rparr>, ?W)"
  proof -
    have b: "builtinTool test_env [] ''read'' Nullish ''/w'' ?W = (Inl (JsError ''TypeError''), ?W)"
      by (simp add: builtinTool_def lower_names executeRead_def alias3_def throw_type_error_def
            test_env_def)
    from executeTool_never_throws[of test_env "[]" "''read''" Nullish "''/w''" ?W]
    obtain r w1 where rw: "executeTool test_env [] ''read'' Nullish ''/w'' ?W = (Inr r, w1)"
      and th: "\<forall>e w2. (\<forall>(srv, c) \<in> set ([] :: connections). ''read'' \<notin> tool_name ` set (tools c)) \<and> builtinTool test_env [] ''read'' Nullish ''/w'' ?W = (Inl e, w2)
           \<longrightarrow> r = \<lparr>tr_success = False, tr_output = [],
                     tr_error = Some (error_message_or e ''Unknown error'')\<rparr> \<and> w1 = w2"
      by (elim exE conjE) (rule that)
    from th[rule_format, of "JsError ''TypeError''" ?W] b
    have "r = \<lparr>tr_success = False, tr_output = [], tr_error = Some ''TypeError''\<rparr>" "w1 = ?W"
      by simp_all
    with rw show ?thesis by simp
  qed
  have b: "executeTool test_env [] ''read'' (obj [(''path'', JStr ''/missing'')]) ''/w'' ?W
     = (Inr \<lparr>tr_success = False, tr_output = [],
             tr_error = Some ''Failed to read file: ENOENT: no such file or directory''\<rparr>, ?W)"
  proof -
    let ?f = "\<lambda>k. case map_of [(''path'', JStr ''/missing'')] k of None \<Rightarrow> JUndefined | Some v \<Rightarrow> v"
    from executeTool_never_throws[of test_env "[]" "''read''" "Props ?f" "''/w''" ?W]
    obtain r w1 where rw: "executeTool test_env [] ''read'' (Props ?f) ''/w'' ?W = (Inr r, w1)"
      and rd: "\<forall>f. (\<forall>(srv, c) \<in> set ([] :: connections). ''read'' \<notin> tool_name ` set (tools c)) \<and> Props ?f = Props f \<and> toLowerCase ''read'' = ''read'' \<longrightarrow>
          (tr_success r \<longleftrightarrow>
             truthy (js_or (js_or (f ''file_path'') (f ''path'')) (f ''file''))
             \<and> (\<exists>full. resolvePath test_env ''/w'' (js_or (js_or (f ''file_path'') (f ''path'')) (f ''file''))
                              = Inr full
                    \<and> files ?W full \<noteq> None))"
      by (elim exE conjE) (rule that)
    from rd[rule_format, of ?f] have ns: "\<not> tr_success r"
      by (simp add: lower_names js_or_def resolvePath_def test_env_def one_file_def)
    have "executeTool test_env [] ''read'' (Props ?f) ''/w'' ?W
           = (Inr (failure ''Failed to read file: ENOENT: no such file or directory''), ?W)"
      by (simp add: executeTool_def isMcpTool_def builtinTool_def lower_names executeRead_def
          alias3_def js_or_def resolvePath_def readFileSync_def test_env_def one_file_def)
    with rw ns show ?thesis by (simp add: obj_def failure_def)
  qed
  have c: "executeTool ?slow test_conns ''files_search'' (obj []) ''/w'' ?W
     = (Inr \<lparr>tr_success = False, tr_output = [],
             tr_error = Some ''Tool call files_search timed out''\<rparr>, ?W)"
  proof -
    from executeTool_never_throws[of ?slow test_conns "''files_search''" "obj []" "''/w''" ?W]
    obtain r w1 where rw: "executeTool ?slow test_conns ''files_search'' (obj []) ''/w'' ?W = (Inr r, w1)"
      and pl: "\<forall>pre srv c post.
           test_conns = pre @ (srv, c) # post \<and> ''files_search'' \<in> tool_name ` set (tools c)
           \<and> (\<forall>(s', c') \<in> set pre. ''files_search'' \<notin> tool_name ` set (tools c'))
           \<longrightarrow> w1 = (if srv = [] then ?W else snd (callRemote ?slow srv ''files_search'' (obj []) ?W))
               \<and> (tr_success r \<longleftrightarrow>
                     srv \<noteq> [] \<and> (\<exists>content. fst (callRemote ?slow srv ''files_search'' (obj []) ?W) = CallResolved content))
               \<and> (\<forall>e. srv \<noteq> [] \<and> fst (callRemote ?slow srv ''files_search'' (obj []) ?W) = CallRejected e
                      \<longrightarrow> tr_error r = Some (error_message_or e ''Unknown error''))
               \<and> (srv \<noteq> [] \<and> fst (callRemote ?slow srv ''files_search'' (obj []) ?W) = CallTimedOut
                      \<longrightarrow> tr_error r = Some (''Tool call '' @ ''files_search'' @ '' timed out''))"
      by (elim exE conjE) (rule that)
    from pl[rule_format, of "[]" "''files''" ?c "[]"]
    have "w1 = ?W" "\<not> tr_success r" "tr_error r = Some ''Tool call files_search timed out''"
      by (simp_all add: test_conns_def)
    moreover have "tr_output r = []"
      using rw by (auto simp: executeTool_def isMcpTool_def callTool_def findServerForTool_def
                     test_conns_def failure_def)
    ultimately show ?thesis using rw by (cases r) simp
  qed
  have d: "executeTool test_env test_conns ''Frobnicate'' (obj []) ''/w'' ?W
     = (Inr \<lparr>tr_success = False, tr_output = [],
             tr_error = Some ''Unknown tool: Frobnicate. Built-in tools: Read, Write, Edit, Bash, Glob, Grep, List. MCP tools: files_search''\<rparr>, ?W)"
  proof -
    from executeTool_never_throws[of test_env test_conns "''Frobnicate''" "obj []" "''/w''" ?W]
    obtain r w1 where rw: "executeTool test_env test_conns ''Frobnicate'' (obj []) ''/w'' ?W = (Inr r, w1)"
      and un: "(\<forall>(srv, c) \<in> set test_conns. ''Frobnicate'' \<notin> tool_name ` set (tools c))
         \<and> toLowerCase ''Frobnicate'' \<notin> {''read'', ''write'', ''edit'', ''bash'', ''glob'', ''grep'', ''list'', ''ls''}
           \<longrightarrow> r = \<lparr>tr_success = False, tr_output = [],
                     tr_error = Some (''Unknown tool: '' @ ''Frobnicate''
                       @ ''. Built-in tools: Read, Write, Edit, Bash, Glob, Grep, List. MCP tools: ''
                       @ (if join_with '', '' (concat (map (\<lambda>(srv, c). map tool_name (tools c)) test_conns)) = []
                          then ''none configured''
                          else join_with '', '' (concat (map (\<lambda>(srv, c). map tool_name (tools c)) test_conns))))\<rparr>
               \<and> w1 = ?W"
      by (elim exE conjE) (rule that)
    from un have "r = \<lparr>tr_success = False, tr_output = [],
             tr_error = Some ''Unknown tool: Frobnicate. Built-in tools: Read, Write, Edit, Bash, Glob, Grep, List. MCP tools: files_search''\<rparr>"
      "w1 = ?W"
      by (simp_all add: test_conns_def lf)
    with rw show ?thesis by simp
  qed
  from a b c d show ?thesis by (intro conjI)
qed

subsection \<open>Empty strings and the alias chains\<close>








section \<open>Properties of the connection manager\<close>

text \<open>\<open>doConnect\<close> settles with a connection or with \<open>null\<close>; it never rejects.\<close>

lemma doConnect_never_rejects:
  "doConnect env n cfg = Inr (case doConnect_try env n cfg of Inr c \<Rightarrow> Some c | Inl e \<Rightarrow> None)"
  by (simp add: doConnect_def split: sum.splits)

lemma doConnect_fails_iff:
  "doConnect env n cfg = Inr None \<longleftrightarrow> connect_fails env n cfg"
  unfolding doConnect_def doConnect_try_def connect_fails_def race_timeout_def
  by (auto split: sum.splits raced.splits)

lemma doConnect_try_fails_iff:
  "(\<exists>e. doConnect_try env n cfg = Inl e) \<longleftrightarrow> connect_fails env n cfg"
  using doConnect_fails_iff[of env n cfg] by (auto simp: doConnect_def split: sum.splits)

subsection \<open>The invariant\<close>

lemma mgr_invI:
  assumes "distinct (map fst (running s))" "distinct (map fst (cleanup_due s))"
    and "set (map fst (running s)) \<inter> set (map fst (cleanup_due s)) = {}"
    and "\<And>p. p \<in> in_flight s \<Longrightarrow> p < next_id s"
    and "\<And>p n cfg. (p, n, cfg) \<in> set (running s) \<Longrightarrow> map_of (connecting s) n = Some p"
    and "\<And>p n. (p, n) \<in> set (cleanup_due s) \<Longrightarrow> map_of (connecting s) n = Some p"
    and "\<And>n p. map_of (connecting s) n = Some p \<Longrightarrow> p \<in> in_flight s"
    and "\<And>n m p. map_of (connecting s) n = Some p \<Longrightarrow> map_of (connecting s) m = Some p \<Longrightarrow> n = m"
    and "\<And>p r. results s p = Some r \<Longrightarrow> \<exists>v. r = Inr v"
  shows "mgr_inv s"
  unfolding mgr_inv_def using assms by blast

lemma mgr_invD:
  assumes "mgr_inv s"
  shows "distinct (map fst (running s))" "distinct (map fst (cleanup_due s))"
    and "set (map fst (running s)) \<inter> set (map fst (cleanup_due s)) = {}"
    and "\<And>p. p \<in> in_flight s \<Longrightarrow> p < next_id s"
    and "\<And>p n cfg. (p, n, cfg) \<in> set (running s) \<Longrightarrow> map_of (connecting s) n = Some p"
    and "\<And>p n. (p, n) \<in> set (cleanup_due s) \<Longrightarrow> map_of (connecting s) n = Some p"
    and "\<And>n p. map_of (connecting s) n = Some p \<Longrightarrow> p \<in> in_flight s"
    and "\<And>n m p. map_of (connecting s) n = Some p \<Longrightarrow> map_of (connecting s) m = Some p \<Longrightarrow> n = m"
    and "\<And>p r. results s p = Some r \<Longrightarrow> \<exists>v. r = Inr v"
  using assms unfolding mgr_inv_def by blast+

lemma mgr_inv_new: "mgr_inv new_mgr"
  by (simp add: mgr_inv_def new_mgr_def in_flight_def)

lemma connect_in_flight:
  "map_of (connecting s) n = Some p \<Longrightarrow> connect n cfg s = (Following p, s)"
  by (simp add: connect_def)

lemma connect_existing:
  "map_of (connecting s) n = None \<Longrightarrow> map_of (connections s) n = Some c
     \<Longrightarrow> connect n cfg s = (Existing c, s)"
  by (simp add: connect_def)

lemma connect_fresh:
  "map_of (connecting s) n = None \<Longrightarrow> map_of (connections s) n = None
     \<Longrightarrow> connect n cfg s
         = (Following (next_id s),
            s\<lparr>connecting := AList.update n (next_id s) (connecting s),
              running := running s @ [(next_id s, n, cfg)],
              next_id := Suc (next_id s)\<rparr>)"
  by (simp add: connect_def Let_def)

lemma mgr_inv_connect:
  assumes "mgr_inv s"
  shows "mgr_inv (snd (connect n cfg s))"
proof (cases "map_of (connecting s) n")
  case (Some p)
  with assms show ?thesis by (simp add: connect_in_flight)
next
  case None
  show ?thesis
  proof (cases "map_of (connections s) n")
    case (Some c)
    with None assms show ?thesis by (simp add: connect_existing)
  next
    case nc: None
    let ?p = "next_id s"
    let ?s' = "s\<lparr>connecting := AList.update n ?p (connecting s),
                 running := running s @ [(?p, n, cfg)], next_id := Suc ?p\<rparr>"
    note d = mgr_invD[OF assms]
    have fresh: "?p \<notin> in_flight s" using d(4) by auto
    then have fr: "?p \<notin> set (map fst (running s))" "?p \<notin> set (map fst (cleanup_due s))"
      by (auto simp: in_flight_def)
    have fl: "in_flight ?s' = insert ?p (in_flight s)" by (auto simp: in_flight_def)
    have "mgr_inv ?s'"
    proof (rule mgr_invI)
      show "distinct (map fst (running ?s'))" using d(1) fr(1) by simp
      show "distinct (map fst (cleanup_due ?s'))" using d(2) by simp
      show "set (map fst (running ?s')) \<inter> set (map fst (cleanup_due ?s')) = {}"
        using d(3) fr(2) by auto
      show "p < next_id ?s'" if "p \<in> in_flight ?s'" for p
        using that d(4)[of p] unfolding fl by auto
      show "map_of (connecting ?s') m = Some p" if "(p, m, c) \<in> set (running ?s')" for p m c
      proof (cases "(p, m, c) = (?p, n, cfg)")
        case True
        then show ?thesis by (simp add: update_conv')
      next
        case False
        with that have "(p, m, c) \<in> set (running s)" by auto
        then have "map_of (connecting s) m = Some p" by (rule d(5))
        moreover from this None have "m \<noteq> n" by auto
        ultimately show ?thesis by (simp add: update_conv')
      qed
      show "map_of (connecting ?s') m = Some p" if "(p, m) \<in> set (cleanup_due ?s')" for p m
      proof -
        from that have "map_of (connecting s) m = Some p" using d(6) by simp
        moreover from this None have "m \<noteq> n" by auto
        ultimately show ?thesis by (simp add: update_conv')
      qed
      show "p \<in> in_flight ?s'" if "map_of (connecting ?s') m = Some p" for m p
      proof (cases "m = n")
        case True
        with that have "p = ?p" by (simp add: update_conv')
        then show ?thesis unfolding fl by simp
      next
        case False
        with that have "map_of (connecting s) m = Some p" by (simp add: update_conv')
        then have "p \<in> in_flight s" by (rule d(7))
        then show ?thesis unfolding fl by simp
      qed
      show "m = m'" if "map_of (connecting ?s') m = Some p" "map_of (connecting ?s') m' = Some p"
        for m m' p
      proof -
        have old: "q \<noteq> ?p" if "map_of (connecting s) k = Some q" for k q
          using d(7)[OF that] fresh by auto
        show ?thesis
          using that old d(8)[of m p m']
          by (cases "m = n"; cases "m' = n") (auto simp: update_conv')
      qed
      show "\<exists>v. r = Inr v" if "results ?s' p = Some r" for p r
        using that d(9) by simp
    qed
    then show ?thesis by (simp add: connect_fresh[OF None nc])
  qed
qed

lemma finish_absent: "map_of (running s) p = None \<Longrightarrow> finish env p s = s"
  by (simp add: finish_def)

lemma finish_running:
  "map_of (running s) p = Some (n, cfg) \<Longrightarrow>
   finish env p s
     = s\<lparr>connections := (case doConnect_try env n cfg of
                            Inr c \<Rightarrow> AList.update n c (connections s)
                          | Inl e \<Rightarrow> connections s),
         running := AList.delete p (running s),
         cleanup_due := cleanup_due s @ [(p, n)],
         results := (results s)(p \<mapsto> doConnect env n cfg)\<rparr>"
  by (simp add: finish_def Let_def doConnect_never_rejects split: sum.splits)

lemma set_delete: "set (AList.delete k al) = {x \<in> set al. fst x \<noteq> k}"
  by (auto simp: AList.delete_eq)

lemma keys_delete: "set (map fst (AList.delete k al)) = set (map fst al) - {k}"
  by (simp add: delete_keys)

lemma keys_delete_image: "fst ` set (AList.delete k al) = fst ` set al - {k}"
  using keys_delete[of k al] by simp

lemma distinct_delete_keys: "distinct (map fst al) \<Longrightarrow> distinct (map fst (AList.delete k al))"
  by (simp add: delete_keys distinct_removeAll)

lemma mgr_inv_finish:
  assumes "mgr_inv s"
  shows "mgr_inv (finish env p s)"
proof (cases "map_of (running s) p")
  case None
  with assms show ?thesis by (simp add: finish_absent)
next
  case (Some a)
  obtain n cfg where a: "a = (n, cfg)" by (cases a)
  let ?s' = "s\<lparr>connections := (case doConnect_try env n cfg of
                            Inr c \<Rightarrow> AList.update n c (connections s)
                          | Inl e \<Rightarrow> connections s),
         running := AList.delete p (running s),
         cleanup_due := cleanup_due s @ [(p, n)],
         results := (results s)(p \<mapsto> doConnect env n cfg)\<rparr>"
  note d = mgr_invD[OF assms]
  from Some a have mem: "(p, n, cfg) \<in> set (running s)" by (auto dest: map_of_SomeD)
  then have pr: "p \<in> set (map fst (running s))" by force
  with d(3) have pc: "p \<notin> set (map fst (cleanup_due s))" by blast
  have cn: "map_of (connecting s) n = Some p" using mem by (rule d(5))
  have fl: "in_flight ?s' = in_flight s" using pr by (auto simp: in_flight_def keys_delete_image)
  have "mgr_inv ?s'"
  proof (rule mgr_invI)
    show "distinct (map fst (running ?s'))" using d(1) by (simp add: distinct_delete_keys)
    show "distinct (map fst (cleanup_due ?s'))" using d(2) pc by simp
    show "set (map fst (running ?s')) \<inter> set (map fst (cleanup_due ?s')) = {}"
      using d(3) by (auto simp: keys_delete_image)
    show "q < next_id ?s'" if "q \<in> in_flight ?s'" for q
      using that d(4)[of q] unfolding fl by simp
    show "map_of (connecting ?s') m = Some q" if "(q, m, c) \<in> set (running ?s')" for q m c
    proof -
      from that have "(q, m, c) \<in> set (running s)" by (simp add: set_delete)
      then show ?thesis using d(5) by simp
    qed
    show "map_of (connecting ?s') m = Some q" if "(q, m) \<in> set (cleanup_due ?s')" for q m
    proof (cases "(q, m) = (p, n)")
      case True
      then show ?thesis using cn by simp
    next
      case False
      with that have "(q, m) \<in> set (cleanup_due s)" by auto
      then show ?thesis using d(6) by simp
    qed
    show "q \<in> in_flight ?s'" if "map_of (connecting ?s') m = Some q" for m q
      using that d(7)[of m q] unfolding fl by simp
    show "m = m'" if "map_of (connecting ?s') m = Some q" "map_of (connecting ?s') m' = Some q"
      for m m' q
      using that d(8)[of m q m'] by simp
    show "\<exists>v. r = Inr v" if "results ?s' q = Some r" for q r
      using that d(9)[of q r] by (cases "q = p") (auto simp: doConnect_never_rejects)
  qed
  then show ?thesis using finish_running[OF Some[unfolded a]] by simp
qed

lemma cleanup_absent: "map_of (cleanup_due s) p = None \<Longrightarrow> cleanup p s = s"
  by (simp add: cleanup_def)

lemma cleanup_due_known:
  "map_of (cleanup_due s) p = Some n \<Longrightarrow>
   cleanup p s = s\<lparr>connecting := AList.delete n (connecting s),
                   cleanup_due := AList.delete p (cleanup_due s)\<rparr>"
  by (simp add: cleanup_def)

lemma mgr_inv_cleanup:
  assumes "mgr_inv s"
  shows "mgr_inv (cleanup p s)"
proof (cases "map_of (cleanup_due s) p")
  case None
  with assms show ?thesis by (simp add: cleanup_absent)
next
  case (Some n)
  let ?s' = "s\<lparr>connecting := AList.delete n (connecting s),
               cleanup_due := AList.delete p (cleanup_due s)\<rparr>"
  note d = mgr_invD[OF assms]
  from Some have mem: "(p, n) \<in> set (cleanup_due s)" by (auto dest: map_of_SomeD)
  then have pc: "p \<in> set (map fst (cleanup_due s))" by force
  with d(3) have pr: "p \<notin> set (map fst (running s))" by blast
  have cn: "map_of (connecting s) n = Some p" using mem by (rule d(6))
  have fl: "in_flight ?s' = in_flight s - {p}" using pr by (auto simp: in_flight_def keys_delete_image)
  have "mgr_inv ?s'"
  proof (rule mgr_invI)
    show "distinct (map fst (running ?s'))" using d(1) by simp
    show "distinct (map fst (cleanup_due ?s'))" using d(2) by (simp add: distinct_delete_keys)
    show "set (map fst (running ?s')) \<inter> set (map fst (cleanup_due ?s')) = {}"
      using d(3) by (auto simp: keys_delete_image)
    show "q < next_id ?s'" if "q \<in> in_flight ?s'" for q
      using that d(4)[of q] unfolding fl by simp
    show "map_of (connecting ?s') m = Some q" if "(q, m, c) \<in> set (running ?s')" for q m c
    proof -
      from that have r: "(q, m, c) \<in> set (running s)" by simp
      then have cm: "map_of (connecting s) m = Some q" by (rule d(5))
      from r have "q \<in> set (map fst (running s))" by force
      with pr have "q \<noteq> p" by auto
      with cm cn have "m \<noteq> n" by auto
      with cm show ?thesis by (simp add: delete_conv')
    qed
    show "map_of (connecting ?s') m = Some q" if "(q, m) \<in> set (cleanup_due ?s')" for q m
    proof -
      from that have r: "(q, m) \<in> set (cleanup_due s)" "q \<noteq> p" by (auto simp: set_delete)
      then have cm: "map_of (connecting s) m = Some q" using d(6) by simp
      with r(2) cn have "m \<noteq> n" by auto
      with cm show ?thesis by (simp add: delete_conv')
    qed
    show "q \<in> in_flight ?s'" if "map_of (connecting ?s') m = Some q" for m q
    proof -
      from that have mn: "m \<noteq> n" by (auto simp: delete_conv' split: if_splits)
      with that have cm: "map_of (connecting s) m = Some q" by (simp add: delete_conv')
      then have fq: "q \<in> in_flight s" by (rule d(7))
      have "q \<noteq> p"
      proof
        assume "q = p"
        with cm cn have "m = n" using d(8)[of m p n] by simp
        with mn show False by simp
      qed
      with fq show ?thesis unfolding fl by simp
    qed
    show "m = m'" if "map_of (connecting ?s') m = Some q" "map_of (connecting ?s') m' = Some q"
      for m m' q
    proof -
      from that have "map_of (connecting s) m = Some q" "map_of (connecting s) m' = Some q"
        by (auto simp: delete_conv' split: if_splits)
      then show ?thesis by (rule d(8))
    qed
    show "\<exists>v. r = Inr v" if "results ?s' q = Some r" for q r
      using that d(9)[of q r] by simp
  qed
  then show ?thesis using cleanup_due_known[OF Some] by simp
qed

lemma mgr_inv_step: "mgr_inv s \<Longrightarrow> mgr_inv (mgr_step env ev s)"
  by (cases ev) (simp_all add: mgr_inv_connect mgr_inv_finish mgr_inv_cleanup)

lemma mgr_inv_run: "mgr_inv s \<Longrightarrow> mgr_inv (mgr_run env evs s)"
  unfolding mgr_run_def by (induction evs arbitrary: s) (simp_all add: mgr_inv_step)

lemma mgr_inv_settle: "mgr_inv s \<Longrightarrow> mgr_inv (settle env p s)"
  by (simp add: settle_def mgr_inv_finish mgr_inv_cleanup)

lemma mgr_inv_fold_settle: "mgr_inv s \<Longrightarrow> mgr_inv (fold (settle env) ps s)"
  by (induction ps arbitrary: s) (simp_all add: mgr_inv_settle)

lemma connect_all_snd:
  "snd (connect_all ((n, cfg) # rest) s) = snd (connect_all rest (snd (connect n cfg s)))"
  by (simp add: Let_def split: prod.splits)

lemma connect_all_fst:
  "fst (connect_all ((n, cfg) # rest) s)
     = fst (connect n cfg s) # fst (connect_all rest (snd (connect n cfg s)))"
  by (simp add: Let_def split: prod.splits)

lemma mgr_inv_connect_all: "mgr_inv s \<Longrightarrow> mgr_inv (snd (connect_all servers s))"
proof (induction servers arbitrary: s)
  case Nil
  then show ?case by simp
next
  case (Cons a servers)
  obtain n cfg where a: "a = (n, cfg)" by (cases a)
  show ?case unfolding a connect_all_snd using Cons by (simp add: mgr_inv_connect)
qed

lemma quiescent_inv: "quiescent s \<Longrightarrow> mgr_inv s"
  unfolding quiescent_def mgr_inv_def in_flight_def
  by (auto intro: sum.exhaust) (metis sum.exhaust)

lemma quiescent_new: "quiescent new_mgr"
  by (simp add: quiescent_def new_mgr_def)

lemma running_names_unique:
  assumes "mgr_inv s" "(p, n, cfg) \<in> set (running s)" "(p', n, cfg') \<in> set (running s)"
  shows "p' = p \<and> cfg' = cfg"
proof -
  note d = mgr_invD[OF assms(1)]
  from d(5)[OF assms(2)] d(5)[OF assms(3)] have pp: "p' = p" by simp
  from d(1) assms(2) have "map_of (running s) p = Some (n, cfg)" by simp
  moreover from d(1) assms(3) pp have "map_of (running s) p = Some (n, cfg')" by simp
  ultimately show ?thesis using pp by simp
qed

subsection \<open>Initialisation\<close>

lemma first_rejection_None:
  "(\<And>x e. x \<in> set xs \<Longrightarrow> x \<noteq> Some (Inl e)) \<Longrightarrow> first_rejection xs = None"
proof (induction xs)
  case Nil
  then show ?case by simp
next
  case (Cons x xs)
  from Cons.prems have "first_rejection xs = None" by (intro Cons.IH) simp
  moreover from Cons.prems have "x \<noteq> Some (Inl e)" for e by simp
  ultimately show ?case
  proof (cases x)
    case None
    with \<open>first_rejection xs = None\<close> show ?thesis by simp
  next
    case (Some r)
    with \<open>\<And>e. x \<noteq> Some (Inl e)\<close> obtain v where "r = Inr v" by (cases r) auto
    with Some \<open>first_rejection xs = None\<close> show ?thesis by simp
  qed
qed

lemma handle_result_no_rejection:
  assumes "mgr_inv s"
  shows "handle_result s h \<noteq> Some (Inl e)"
proof (cases h)
  case (Following p)
  show ?thesis
  proof
    assume "handle_result s h = Some (Inl e)"
    with Following have "results s p = Some (Inl e)" by (simp add: handle_result_def)
    with mgr_invD(9)[OF assms] show False by blast
  qed
next
  case (Existing c)
  then show ?thesis by (simp add: handle_result_def)
qed

text \<open>\<open>initialize\<close> never rejects, whatever the servers do.\<close>

lemma initialize_never_rejects:
  assumes "mgr_inv s"
  shows "fst (initialize env servers order s) = Inr () \<and> mgr_inv (snd (initialize env servers order s))"
proof (cases "servers = []")
  case True
  with assms show ?thesis by (simp add: initialize_def)
next
  case False
  obtain hs s1 where ca: "connect_all servers s = (hs, s1)" by (cases "connect_all servers s")
  let ?s2 = "fold (settle env) (settle_order order s1) s1"
  have "mgr_inv s1" using mgr_inv_connect_all[OF assms, of servers] ca by simp
  then have inv2: "mgr_inv ?s2" by (rule mgr_inv_fold_settle)
  have "first_rejection (map (handle_result ?s2) hs) = None"
    by (rule first_rejection_None) (auto simp: handle_result_no_rejection[OF inv2])
  with False ca inv2 show ?thesis by (simp add: initialize_def Let_def)
qed

lemma settle_absent:
  assumes "cleanup_due s = []" "map_of (running s) p = None"
  shows "settle env p s = s"
  using assms by (simp add: settle_def finish_absent cleanup_absent)

lemma settle_running:
  assumes "cleanup_due s = []" "map_of (running s) p = Some (n, cfg)"
  shows "settle env p s
     = s\<lparr>connections := (case doConnect_try env n cfg of
                            Inr c \<Rightarrow> AList.update n c (connections s)
                          | Inl e \<Rightarrow> connections s),
         connecting := AList.delete n (connecting s),
         running := AList.delete p (running s),
         results := (results s)(p \<mapsto> doConnect env n cfg)\<rparr>"
  using assms by (simp add: settle_def finish_running cleanup_def AList.delete_eq)

lemma settle_connections:
  assumes "cleanup_due s = []" "map_of (running s) p = Some (n, cfg)"
  shows "map_of (connections (settle env p s)) m
           = (if m = n then outcome env n cfg (map_of (connections s) n) else map_of (connections s) m)"
  unfolding settle_running[OF assms] outcome_def
  by (simp add: update_conv' split: sum.splits)

lemma settledI:
  assumes "cleanup_due u = []"
    and "set (map fst (running u)) = set (map fst (running s)) - P"
    and "set (running u) \<subseteq> set (running s)"
    and "\<And>p n cfg. (p, n, cfg) \<in> set (running s) \<Longrightarrow> p \<in> P
            \<Longrightarrow> map_of (connections u) n = outcome env n cfg (map_of (connections s) n)
              \<and> results u p = Some (doConnect env n cfg)"
    and "\<And>n. (\<And>p cfg. (p, n, cfg) \<in> set (running s) \<Longrightarrow> p \<notin> P)
            \<Longrightarrow> map_of (connections u) n = map_of (connections s) n"
    and "\<And>p. p \<notin> set (map fst (running s)) \<Longrightarrow> results u p = results s p"
  shows "settled env P s u"
  unfolding settled_def using assms by blast

lemma settledD:
  assumes "settled env P s u"
  shows "cleanup_due u = []"
    and "set (map fst (running u)) = set (map fst (running s)) - P"
    and "set (running u) \<subseteq> set (running s)"
    and "\<And>p n cfg. (p, n, cfg) \<in> set (running s) \<Longrightarrow> p \<in> P
            \<Longrightarrow> map_of (connections u) n = outcome env n cfg (map_of (connections s) n)
              \<and> results u p = Some (doConnect env n cfg)"
    and "\<And>n. (\<And>p cfg. (p, n, cfg) \<in> set (running s) \<Longrightarrow> p \<notin> P)
            \<Longrightarrow> map_of (connections u) n = map_of (connections s) n"
    and "\<And>p. p \<notin> set (map fst (running s)) \<Longrightarrow> results u p = results s p"
  using assms unfolding settled_def by blast+

text \<open>Settling promises in any order gives each name the outcome of its own attempt.\<close>

lemma fold_settle_effect:
  assumes "mgr_inv s" "cleanup_due s = []"
  shows "settled env (set ps) s (fold (settle env) ps s)"
  using assms
proof (induction ps arbitrary: s)
  case Nil
  show ?case by (rule settledI) (use Nil in auto)
next
  case (Cons q rest)
  note d = mgr_invD[OF Cons.prems(1)]
  show ?case
  proof (cases "map_of (running s) q")
    case None
    then have same: "settle env q s = s" using Cons.prems(2) by (simp add: settle_absent)
    from None have qn: "q \<notin> set (map fst (running s))" by (simp add: map_of_eq_None_iff)
    have qn': "p \<noteq> q" if "(p, n, cfg) \<in> set (running s)" for p n cfg
      using that qn by force
    let ?u = "fold (settle env) rest s"
    note ih = settledD[OF Cons.IH[OF Cons.prems]]
    have "settled env (set (q # rest)) s ?u"
    proof (rule settledI)
      show "cleanup_due ?u = []" by (rule ih(1))
      show "set (map fst (running ?u)) = set (map fst (running s)) - set (q # rest)"
        using ih(2) qn by auto
      show "set (running ?u) \<subseteq> set (running s)" by (rule ih(3))
      show "map_of (connections ?u) n = outcome env n cfg (map_of (connections s) n)
              \<and> results ?u p = Some (doConnect env n cfg)"
        if "(p, n, cfg) \<in> set (running s)" "p \<in> set (q # rest)" for p n cfg
      proof -
        from that qn'[OF that(1)] have "p \<in> set rest" by simp
        with that(1) show ?thesis by (rule ih(4))
      qed
      show "map_of (connections ?u) n = map_of (connections s) n"
        if "\<And>p cfg. (p, n, cfg) \<in> set (running s) \<Longrightarrow> p \<notin> set (q # rest)" for n
      proof (rule ih(5))
        fix p cfg assume "(p, n, cfg) \<in> set (running s)"
        from that[OF this] show "p \<notin> set rest" by simp
      qed
      show "results ?u p = results s p" if "p \<notin> set (map fst (running s))" for p
        using that by (rule ih(6))
    qed
    then show ?thesis using same by simp
  next
    case (Some a)
    obtain nq cq where a: "a = (nq, cq)" by (cases a)
    note run = Some[unfolded a]
    let ?t = "settle env q s"
    have memq: "(q, nq, cq) \<in> set (running s)" using run by (auto dest: map_of_SomeD)
    have t_inv: "mgr_inv ?t" using Cons.prems(1) by (rule mgr_inv_settle)
    have t_due: "cleanup_due ?t = []" using Cons.prems(2) by (simp add: settle_running[OF Cons.prems(2) run])
    have t_run: "running ?t = AList.delete q (running s)"
      by (simp add: settle_running[OF Cons.prems(2) run])
    have t_res: "results ?t = (results s)(q \<mapsto> doConnect env nq cq)"
      by (simp add: settle_running[OF Cons.prems(2) run])
    let ?u = "fold (settle env) rest ?t"
    note ih = settledD[OF Cons.IH[OF t_inv t_due]]
    have run_t: "(p, n, c) \<in> set (running ?t) \<longleftrightarrow> (p, n, c) \<in> set (running s) \<and> p \<noteq> q" for p n c
      by (auto simp: t_run set_delete)
    have no_nq: "(p, nq, c) \<notin> set (running ?t)" for p c
    proof
      assume "(p, nq, c) \<in> set (running ?t)"
      then have "(p, nq, c) \<in> set (running s)" "p \<noteq> q" by (simp_all add: run_t)
      with running_names_unique[OF Cons.prems(1) memq, of p c] show False by simp
    qed
    have keys_t: "set (map fst (running ?t)) = set (map fst (running s)) - {q}"
      unfolding t_run by (rule keys_delete)
    have "settled env (set (q # rest)) s ?u"
    proof (rule settledI)
      show "cleanup_due ?u = []" by (rule ih(1))
      show "set (map fst (running ?u)) = set (map fst (running s)) - set (q # rest)"
        using ih(2) keys_t by auto
      show "set (running ?u) \<subseteq> set (running s)"
        using ih(3) run_t by auto
      show "map_of (connections ?u) n = outcome env n cfg (map_of (connections s) n)
              \<and> results ?u p = Some (doConnect env n cfg)"
        if "(p, n, cfg) \<in> set (running s)" "p \<in> set (q # rest)" for p n cfg
      proof (cases "p = q")
        case True
        from d(1) that(1) have "map_of (running s) p = Some (n, cfg)" by simp
        with True run have eq: "n = nq" "cfg = cq" by simp_all
        have "map_of (connections ?u) nq = map_of (connections ?t) nq"
          by (rule ih(5)) (use no_nq in blast)
        moreover have "q \<notin> set (map fst (running ?t))" unfolding keys_t by simp
        then have "results ?u q = results ?t q" by (rule ih(6))
        ultimately show ?thesis
          using True eq settle_connections[OF Cons.prems(2) run, of env nq] t_res by simp
      next
        case False
        with that have a: "(p, n, cfg) \<in> set (running ?t)" "p \<in> set rest" by (auto simp: run_t)
        have "map_of (connections ?u) n = outcome env n cfg (map_of (connections ?t) n)
               \<and> results ?u p = Some (doConnect env n cfg)" using a by (rule ih(4))
        moreover have "n \<noteq> nq" using a(1) no_nq by blast
        ultimately show ?thesis using settle_connections[OF Cons.prems(2) run, of env n] by simp
      qed
      show "map_of (connections ?u) n = map_of (connections s) n"
        if "\<And>p cfg. (p, n, cfg) \<in> set (running s) \<Longrightarrow> p \<notin> set (q # rest)" for n
      proof -
        have "n \<noteq> nq" using that[of q cq] memq by auto
        moreover have "map_of (connections ?u) n = map_of (connections ?t) n"
        proof (rule ih(5))
          fix p cfg assume "(p, n, cfg) \<in> set (running ?t)"
          then have "(p, n, cfg) \<in> set (running s)" by (simp add: run_t)
          from that[OF this] show "p \<notin> set rest" by simp
        qed
        ultimately show ?thesis using settle_connections[OF Cons.prems(2) run, of env n] by simp
      qed
      show "results ?u p = results s p" if "p \<notin> set (map fst (running s))" for p
      proof -
        have "p \<noteq> q" using that memq by force
        moreover have "p \<notin> set (map fst (running ?t))" unfolding keys_t using that by simp
        then have "results ?u p = results ?t p" by (rule ih(6))
        ultimately show ?thesis by (simp add: t_res)
      qed
    qed
    then show ?thesis by simp
  qed
qed

lemma connect_keeps:
  "connections (snd (connect n cfg s)) = connections s"
  "cleanup_due (snd (connect n cfg s)) = cleanup_due s"
  "results (snd (connect n cfg s)) = results s"
  "set (running s) \<subseteq> set (running (snd (connect n cfg s)))"
  by (auto simp: connect_def Let_def split: option.splits)

lemma connect_new_running:
  assumes "(p, m, c) \<in> set (running (snd (connect n cfg s)))" "(p, m, c) \<notin> set (running s)"
  shows "m = n \<and> c = cfg \<and> map_of (connections s) n = None \<and> map_of (connecting s) n = None"
  using assms by (auto simp: connect_def Let_def split: option.splits)

lemma connect_other_name:
  "m \<noteq> n \<Longrightarrow> map_of (connecting (snd (connect n cfg s))) m = map_of (connecting s) m"
  by (auto simp: connect_def Let_def update_conv' split: option.splits)

lemma connect_all_effect:
  assumes "distinct (map fst servers)"
  shows "connections (snd (connect_all servers s)) = connections s
       \<and> cleanup_due (snd (connect_all servers s)) = cleanup_due s
       \<and> results (snd (connect_all servers s)) = results s
       \<and> set (running s) \<subseteq> set (running (snd (connect_all servers s)))
       \<and> (\<forall>p m c. (p, m, c) \<in> set (running (snd (connect_all servers s))) \<and> (p, m, c) \<notin> set (running s)
             \<longrightarrow> (m, c) \<in> set servers \<and> map_of (connections s) m = None)
       \<and> (\<forall>m c. (m, c) \<in> set servers \<and> map_of (connecting s) m = None \<and> map_of (connections s) m = None
             \<longrightarrow> (\<exists>p. (p, m, c) \<in> set (running (snd (connect_all servers s)))))"
  using assms
proof (induction servers arbitrary: s)
  case Nil
  then show ?case by simp
next
  case (Cons a servers)
  obtain n cfg where a: "a = (n, cfg)" by (cases a)
  let ?t = "snd (connect n cfg s)"
  let ?u = "snd (connect_all servers ?t)"
  have u: "snd (connect_all (a # servers) s) = ?u" unfolding a by (rule connect_all_snd)
  from Cons.prems have dist: "distinct (map fst servers)" and nn: "n \<notin> fst ` set servers"
    by (auto simp: a)
  note ih = Cons.IH[OF dist, of ?t]
  note k = connect_keeps[where n = n and cfg = cfg and s = s]
  have c1: "connections ?u = connections s" using ih k(1) by simp
  have c2: "cleanup_due ?u = cleanup_due s" using ih k(2) by simp
  have c3: "results ?u = results s" using ih k(3) by simp
  have c4: "set (running s) \<subseteq> set (running ?u)" using ih k(4) by blast
  have c5: "(m, c) \<in> set (a # servers) \<and> map_of (connections s) m = None"
    if "(p, m, c) \<in> set (running ?u)" "(p, m, c) \<notin> set (running s)" for p m c
  proof (cases "(p, m, c) \<in> set (running ?t)")
    case True
    from connect_new_running[OF True that(2)] show ?thesis by (simp add: a)
  next
    case False
    with that(1) ih have "(m, c) \<in> set servers \<and> map_of (connections ?t) m = None" by blast
    then show ?thesis using k(1) by simp
  qed
  have c6: "\<exists>p. (p, m, c) \<in> set (running ?u)"
    if "(m, c) \<in> set (a # servers)" "map_of (connecting s) m = None" "map_of (connections s) m = None"
    for m c
  proof (cases "(m, c) = (n, cfg)")
    case True
    with that have "(next_id s, m, c) \<in> set (running ?t)" by (simp add: connect_fresh)
    moreover have "set (running ?t) \<subseteq> set (running ?u)" using ih by blast
    ultimately show ?thesis by blast
  next
    case False
    with that(1) have ms: "(m, c) \<in> set servers" by (auto simp: a)
    with nn have "m \<noteq> n" by force
    then have "map_of (connecting ?t) m = None" using that(2) by (simp add: connect_other_name)
    moreover have "map_of (connections ?t) m = None" using that(3) k(1) by simp
    ultimately show ?thesis using ih ms by blast
  qed
  show ?case unfolding u using c1 c2 c3 c4 c5 c6 by blast
qed

lemma settle_order_set:
  "set (settle_order order s) = set (map fst (running s))"
  by (auto simp: settle_order_def Let_def)

lemma getAllTools_servers: "fst ` set (getAllTools conns) \<subseteq> fst ` set conns"
  by (force simp: getAllTools_def)

lemma absent_from_catalog:
  "map_of conns n = None \<Longrightarrow> (n, t) \<notin> set (getAllTools conns)"
  using getAllTools_servers[of conns] by (force simp: map_of_eq_None_iff)

lemma initialize_effect:
  assumes q: "quiescent s" and dist: "distinct (map fst servers)" and ne: "servers \<noteq> []"
  shows "running (snd (initialize env servers order s)) = []
       \<and> connecting (snd (initialize env servers order s)) = []
       \<and> cleanup_due (snd (initialize env servers order s)) = []
       \<and> (\<forall>n cfg. (n, cfg) \<in> set servers \<and> map_of (connections s) n = None
             \<longrightarrow> map_of (connections (snd (initialize env servers order s))) n
                   = (case doConnect_try env n cfg of Inr c \<Rightarrow> Some c | Inl e \<Rightarrow> None))
       \<and> (\<forall>n. n \<notin> fst ` set servers \<or> map_of (connections s) n \<noteq> None
             \<longrightarrow> map_of (connections (snd (initialize env servers order s))) n
                   = map_of (connections s) n)"
proof -
  define s' where "s' = snd (initialize env servers order s)"
  have inv: "mgr_inv s" using q by (rule quiescent_inv)
  from q have qs: "connecting s = []" "running s = []" "cleanup_due s = []"
    by (simp_all add: quiescent_def)
  obtain hs s1 where ca: "connect_all servers s = (hs, s1)" by (cases "connect_all servers s")
  let ?ord = "settle_order order s1"
  have s'_eq: "s' = fold (settle env) ?ord s1"
    unfolding s'_def using ne ca by (simp add: initialize_def Let_def split: option.splits)
  have s1: "s1 = snd (connect_all servers s)" using ca by simp
  note ce = connect_all_effect[OF dist, of s, folded s1]
  have inv1: "mgr_inv s1" unfolding s1 using inv by (rule mgr_inv_connect_all)
  have due1: "cleanup_due s1 = []" using ce qs by simp
  note st = settledD[OF fold_settle_effect[OF inv1 due1, of env ?ord], folded s'_eq]
  have inv': "mgr_inv s'" unfolding s'_eq using inv1 by (rule mgr_inv_fold_settle)
  have "set (map fst (running s')) = {}" using st(2) by (simp add: settle_order_set)
  then have r: "running s' = []" by simp
  have c: "cleanup_due s' = []" by (rule st(1))
  have "map_of (connecting s') n = None" for n
  proof (cases "map_of (connecting s') n")
    case None
    then show ?thesis .
  next
    case (Some p)
    from mgr_invD(7)[OF inv' Some] r c show ?thesis by (simp add: in_flight_def)
  qed
  then have "map_of (connecting s') = Map.empty" by (simp add: fun_eq_iff)
  then have cg: "connecting s' = []" by (simp only: map_of_eq_empty_iff)
  have new: "map_of (connections s') n = (case doConnect_try env n cfg of Inr c \<Rightarrow> Some c | Inl e \<Rightarrow> None)"
    if "(n, cfg) \<in> set servers" "map_of (connections s) n = None" for n cfg
  proof -
    from ce have "\<forall>m c. (m, c) \<in> set servers \<and> map_of (connecting s) m = None
                   \<and> map_of (connections s) m = None \<longrightarrow> (\<exists>p. (p, m, c) \<in> set (running s1))"
      by blast
    with that qs obtain p where p: "(p, n, cfg) \<in> set (running s1)" by auto
    then have "p \<in> set ?ord" unfolding settle_order_set by force
    with p have "map_of (connections s') n = outcome env n cfg (map_of (connections s1) n)"
      using st(4) by blast
    also have "map_of (connections s1) n = None" using ce that(2) by simp
    finally show ?thesis by (simp add: outcome_def)
  qed
  have old: "map_of (connections s') n = map_of (connections s) n"
    if "n \<notin> fst ` set servers \<or> map_of (connections s) n \<noteq> None" for n
  proof -
    have "(p, n, cfg) \<notin> set (running s1)" for p cfg
    proof
      assume "(p, n, cfg) \<in> set (running s1)"
      with ce qs have "(n, cfg) \<in> set servers \<and> map_of (connections s) n = None" by auto
      with that show False by force
    qed
    then have "map_of (connections s') n = map_of (connections s1) n" using st(5) by blast
    then show ?thesis using ce by simp
  qed
  show ?thesis unfolding s'_def[symmetric] using r cg c new old by blast
qed

text \<open>
  Claim C8. \<open>initialize\<close> on a manager with nothing in flight, for several distinct
  server names: it settles without rejecting; no connect is left in flight; a server whose
  attempt fails or times out gets a \<open>null\<close> connection, is absent from the
  connections and contributes no tool to the catalog; and every other server that was not
  connected before is connected with the tools it listed, whatever the order in which the
  servers answer.
\<close>

theorem initialize_isolates_failures:
  assumes "quiescent s" and "distinct (map fst servers)" and "servers \<noteq> []"
  shows "fst (initialize env servers order s) = Inr ()
       \<and> running (snd (initialize env servers order s)) = []
       \<and> connecting (snd (initialize env servers order s)) = []
       \<and> (\<forall>(n, cfg) \<in> set servers. map_of (connections s) n = None \<longrightarrow>
             (connect_fails env n cfg \<longrightarrow>
                doConnect env n cfg = Inr None
                \<and> map_of (connections (snd (initialize env servers order s))) n = None
                \<and> (\<forall>t. (n, t) \<notin> set (getAllTools (connections (snd (initialize env servers order s))))))
             \<and> (\<not> connect_fails env n cfg \<longrightarrow>
                (\<exists>c. doConnect env n cfg = Inr (Some c)
                   \<and> map_of (connections (snd (initialize env servers order s))) n = Some c)))"
proof -
  let ?s' = "snd (initialize env servers order s)"
  note e0 = initialize_effect[OF assms, of env order]
  have e1: "running ?s' = []" and e2: "connecting ?s' = []" using e0 by blast+
  have e4: "map_of (connections ?s') n
              = (case doConnect_try env n cfg of Inr c \<Rightarrow> Some c | Inl e \<Rightarrow> None)"
    if "(n, cfg) \<in> set servers" "map_of (connections s) n = None" for n cfg
    using e0 that by blast
  have "fst (initialize env servers order s) = Inr ()"
    using initialize_never_rejects[OF quiescent_inv[OF assms(1)]] by blast
  moreover have "connect_fails env n cfg \<longrightarrow>
                doConnect env n cfg = Inr None
                \<and> map_of (connections ?s') n = None
                \<and> (\<forall>t. (n, t) \<notin> set (getAllTools (connections ?s')))"
    if "(n, cfg) \<in> set servers" "map_of (connections s) n = None" for n cfg
  proof
    assume f: "connect_fails env n cfg"
    then obtain x where x: "doConnect_try env n cfg = Inl x" using doConnect_try_fails_iff by blast
    have "map_of (connections ?s') n = None" using e4[OF that] x by simp
    then show "doConnect env n cfg = Inr None
                \<and> map_of (connections ?s') n = None
                \<and> (\<forall>t. (n, t) \<notin> set (getAllTools (connections ?s')))"
      using f doConnect_fails_iff absent_from_catalog by blast
  qed
  moreover have "\<not> connect_fails env n cfg \<longrightarrow>
                (\<exists>c. doConnect env n cfg = Inr (Some c) \<and> map_of (connections ?s') n = Some c)"
    if "(n, cfg) \<in> set servers" "map_of (connections s) n = None" for n cfg
  proof
    assume "\<not> connect_fails env n cfg"
    then obtain c where c: "doConnect_try env n cfg = Inr c"
      using doConnect_try_fails_iff[of env n cfg] by (cases "doConnect_try env n cfg") auto
    then have "doConnect env n cfg = Inr (Some c)" by (simp add: doConnect_def)
    moreover have "map_of (connections ?s') n = Some c" using e4[OF that] c by simp
    ultimately show "\<exists>c. doConnect env n cfg = Inr (Some c) \<and> map_of (connections ?s') n = Some c"
      by blast
  qed
  ultimately show ?thesis using e1 e2 by blast
qed

theorem initialize_isolates_failures_witness:
  "fst (initialize test_mcp_env test_servers [2, 0] new_mgr) = Inr ()
   \<and> map_of (connections (snd (initialize test_mcp_env test_servers [2, 0] new_mgr))) ''down'' = None
   \<and> map_of (connections (snd (initialize test_mcp_env test_servers [2, 0] new_mgr))) ''slow'' = None
   \<and> map_of (connections (snd (initialize test_mcp_env test_servers [2, 0] new_mgr))) ''files''
       = Some \<lparr>transport = StdioTransport ''files-server'' [] Map.empty,
               tools = [\<lparr>tool_name = ''files_search'', tool_description = None\<rparr>]\<rparr>"
proof -
  let ?s' = "snd (initialize test_mcp_env test_servers [2, 0] new_mgr)"
  have d: "distinct (map fst test_servers)" "test_servers \<noteq> []"
    by (simp_all add: test_servers_def)
  note t = initialize_isolates_failures[OF quiescent_new d, of test_mcp_env "[2, 0]"]
  have c0: "map_of (connections new_mgr) n = None" for n by (simp add: new_mgr_def)
  have tr: "createTransport test_mcp_env (stdio_config cmd) = Inr (StdioTransport cmd [] Map.empty)"
    if "cmd \<noteq> []" for cmd
    using that by (simp add: createTransport_def stdio_config_def falsy_str_def test_mcp_env_def)
  have f1: "connect_fails test_mcp_env ''down'' (stdio_config ''down-server'')"
    by (simp add: connect_fails_def tr) (simp add: test_mcp_env_def)
  have f2: "connect_fails test_mcp_env ''slow'' (stdio_config ''slow-server'')"
    by (simp add: connect_fails_def tr) (simp add: test_mcp_env_def)
  have f3: "\<not> connect_fails test_mcp_env ''files'' (stdio_config ''files-server'')"
    by (simp add: connect_fails_def tr) (simp add: test_mcp_env_def)
  have dc: "doConnect test_mcp_env ''files'' (stdio_config ''files-server'')
       = Inr (Some \<lparr>transport = StdioTransport ''files-server'' [] Map.empty,
               tools = [\<lparr>tool_name = ''files_search'', tool_description = None\<rparr>]\<rparr>)"
  proof -
    have sc: "server_connect test_mcp_env ''files'' x = Resolved ()" for x
      by (simp add: test_mcp_env_def)
    have lt: "server_listTools test_mcp_env ''files''
                = Resolved (Some [\<lparr>tool_name = ''files_search'', tool_description = None\<rparr>])"
      by (simp add: test_mcp_env_def)
    show ?thesis by (simp add: doConnect_def doConnect_try_def tr race_timeout_def sc lt)
  qed
  from t have r: "fst (initialize test_mcp_env test_servers [2, 0] new_mgr) = Inr ()" by blast
  from t have a: "\<forall>(n, cfg) \<in> set test_servers. map_of (connections new_mgr) n = None \<longrightarrow>
             (connect_fails test_mcp_env n cfg \<longrightarrow>
                doConnect test_mcp_env n cfg = Inr None
                \<and> map_of (connections ?s') n = None
                \<and> (\<forall>t. (n, t) \<notin> set (getAllTools (connections ?s'))))
             \<and> (\<not> connect_fails test_mcp_env n cfg \<longrightarrow>
                (\<exists>c. doConnect test_mcp_env n cfg = Inr (Some c)
                   \<and> map_of (connections ?s') n = Some c))" by blast
  from a c0 f1 have "map_of (connections ?s') ''down'' = None" by (simp add: test_servers_def)
  moreover from a c0 f2 have "map_of (connections ?s') ''slow'' = None" by (simp add: test_servers_def)
  moreover from a c0 f3 dc have "map_of (connections ?s') ''files''
       = Some \<lparr>transport = StdioTransport ''files-server'' [] Map.empty,
               tools = [\<lparr>tool_name = ''files_search'', tool_description = None\<rparr>]\<rparr>"
    by (simp add: test_servers_def)
  ultimately show ?thesis using r by simp
qed

subsection \<open>Deduplication\<close>

text \<open>
  Claim C9. A \<open>connect\<close> for a name with a connect in flight hands back the promise
  in flight and starts nothing; of two \<open>connect\<close> calls in a row for a name that is
  neither connecting nor connected, the first starts the one \<open>doConnect\<close> and the
  second follows the same promise; a \<open>connect\<close> for a connected name hands back the
  existing connection unchanged; and in every state the manager can reach, a name has at
  most one \<open>doConnect\<close> running, whose promise a further \<open>connect\<close> returns.
\<close>

theorem connect_deduplicates:
  "(map_of (connecting s) n = Some p \<longrightarrow> connect n cfg s = (Following p, s))
   \<and> (map_of (connecting s) n = None \<and> map_of (connections s) n = None \<longrightarrow>
        fst (connect n cfg s) = Following (next_id s)
        \<and> running (snd (connect n cfg s)) = running s @ [(next_id s, n, cfg)]
        \<and> connect n cfg2 (snd (connect n cfg s)) = (Following (next_id s), snd (connect n cfg s)))
   \<and> (map_of (connecting s) n = None \<and> map_of (connections s) n = Some c \<longrightarrow>
        connect n cfg s = (Existing c, s))
   \<and> (\<forall>q m c1. (q, m, c1) \<in> set (running (mgr_run env evs new_mgr)) \<longrightarrow>
        connect m cfg (mgr_run env evs new_mgr) = (Following q, mgr_run env evs new_mgr)
        \<and> (\<forall>q2 c2. (q2, m, c2) \<in> set (running (mgr_run env evs new_mgr)) \<longrightarrow> q2 = q \<and> c2 = c1))"
proof -
  have a: "connect n cfg s = (Following p, s)" if "map_of (connecting s) n = Some p"
    using that by (rule connect_in_flight)
  have b: "fst (connect n cfg s) = Following (next_id s)
        \<and> running (snd (connect n cfg s)) = running s @ [(next_id s, n, cfg)]
        \<and> connect n cfg2 (snd (connect n cfg s)) = (Following (next_id s), snd (connect n cfg s))"
    if "map_of (connecting s) n = None \<and> map_of (connections s) n = None"
  proof -
    from that have f: "connect n cfg s
         = (Following (next_id s),
            s\<lparr>connecting := AList.update n (next_id s) (connecting s),
              running := running s @ [(next_id s, n, cfg)],
              next_id := Suc (next_id s)\<rparr>)" by (simp add: connect_fresh)
    have "map_of (connecting (snd (connect n cfg s))) n = Some (next_id s)"
      by (simp add: f update_conv')
    then have "connect n cfg2 (snd (connect n cfg s)) = (Following (next_id s), snd (connect n cfg s))"
      by (rule connect_in_flight)
    then show ?thesis by (simp add: f)
  qed
  have c: "connect n cfg s = (Existing c, s)"
    if "map_of (connecting s) n = None \<and> map_of (connections s) n = Some c"
    using that by (simp add: connect_existing)
  let ?t = "mgr_run env evs new_mgr"
  have inv: "mgr_inv ?t" using mgr_inv_new by (rule mgr_inv_run)
  have d: "connect m cfg ?t = (Following q, ?t)
        \<and> (\<forall>q2 c2. (q2, m, c2) \<in> set (running ?t) \<longrightarrow> q2 = q \<and> c2 = c1)"
    if r: "(q, m, c1) \<in> set (running ?t)" for q m c1
  proof -
    from mgr_invD(5)[OF inv r] have "connect m cfg ?t = (Following q, ?t)" by (rule connect_in_flight)
    moreover have "q2 = q \<and> c2 = c1" if "(q2, m, c2) \<in> set (running ?t)" for q2 c2
      using running_names_unique[OF inv r that] .
    ultimately show ?thesis by blast
  qed
  show ?thesis using a b c d by blast
qed

theorem connect_deduplicates_witness:
  "connect ''files'' (stdio_config ''other'') (snd (connect ''files'' (stdio_config ''files-server'') new_mgr))
     = (Following 0, snd (connect ''files'' (stdio_config ''files-server'') new_mgr))
   \<and> running (snd (connect ''files'' (stdio_config ''files-server'') new_mgr))
       = [(0, ''files'', stdio_config ''files-server'')]
   \<and> connect ''files'' (stdio_config ''other'')
        (mgr_run test_mcp_env [Connect ''files'' (stdio_config ''files-server''), Finish 0, Cleanup 0] new_mgr)
     = (Existing \<lparr>transport = StdioTransport ''files-server'' [] Map.empty,
                  tools = [\<lparr>tool_name = ''files_search'', tool_description = None\<rparr>]\<rparr>,
        mgr_run test_mcp_env [Connect ''files'' (stdio_config ''files-server''), Finish 0, Cleanup 0] new_mgr)"
proof -
  let ?cfg = "stdio_config ''files-server''"
  let ?c = "\<lparr>transport = StdioTransport ''files-server'' [] Map.empty,
                  tools = [\<lparr>tool_name = ''files_search'', tool_description = None\<rparr>]\<rparr>"
  let ?t = "mgr_run test_mcp_env [Connect ''files'' ?cfg, Finish 0, Cleanup 0] new_mgr"
  have n0: "map_of (connecting new_mgr) ''files'' = None \<and> map_of (connections new_mgr) ''files'' = None"
    "next_id new_mgr = 0" "running new_mgr = []"
    by (simp_all add: new_mgr_def)
  note a = connect_deduplicates[of new_mgr "''files''" _ ?cfg "stdio_config ''other''" _ test_mcp_env "[]"]
  from a n0 have one: "connect ''files'' (stdio_config ''other'') (snd (connect ''files'' ?cfg new_mgr))
     = (Following 0, snd (connect ''files'' ?cfg new_mgr))"
    "running (snd (connect ''files'' ?cfg new_mgr)) = [(0, ''files'', ?cfg)]"
    by simp_all
  have dc: "doConnect test_mcp_env ''files'' ?cfg = Inr (Some ?c)"
    by (simp add: doConnect_def doConnect_try_def race_timeout_def createTransport_def
        stdio_config_def falsy_str_def test_mcp_env_def)
  have t: "map_of (connecting ?t) ''files'' = None \<and> map_of (connections ?t) ''files'' = Some ?c"
    by (simp add: mgr_run_def connect_def new_mgr_def finish_def cleanup_def dc Let_def AList.delete_eq)
  from connect_deduplicates[of ?t "''files''" _ "stdio_config ''other''" _ ?c test_mcp_env "[]"] t
  have "connect ''files'' (stdio_config ''other'') ?t = (Existing ?c, ?t)" by blast
  with one show ?thesis by simp
qed

section \<open>Properties of the completion loop\<close>

subsection \<open>Trimming\<close>

lemma trimHistory_long:
  "42 < length ms \<Longrightarrow> trimHistory ms = hd ms # drop (length ms - 40) ms"
  by (simp add: trimHistory_def)

lemma trimHistory_short: "length ms \<le> 42 \<Longrightarrow> trimHistory ms = ms"
  by (simp add: trimHistory_def)

lemma length_trimHistory_long: "42 < length ms \<Longrightarrow> length (trimHistory ms) = 41"
  by (simp add: trimHistory_def)

lemma length_trimHistory_le: "length (trimHistory ms) \<le> 42"
  by (simp add: trimHistory_def)

lemma hd_trimHistory: "hd (trimHistory ms) = hd ms"
  by (simp add: trimHistory_def)

lemma trimHistory_Nil_iff: "trimHistory ms = [] \<longleftrightarrow> ms = []"
  by (auto simp: trimHistory_def)

subsection \<open>What each stretch of a turn adds to the trace\<close>


lemma sleeps_append: "sleeps (a @ b) = sleeps a @ sleeps b"
  by (induction a rule: sleeps.induct) auto

lemma requests_append: "requests (a @ b) = requests a @ requests b"
  by (induction a rule: requests.induct) auto

lemma requests_set: "rq \<in> set (requests evs) \<longleftrightarrow> (\<exists>t. Fetch rq t \<in> set evs)"
  by (induction evs rule: requests.induct) auto

lemma readCaught_None_iff: "readCaught env e k = None \<longleftrightarrow> e \<noteq> JsNull \<and> e \<noteq> JsUndefined"
  by (cases e) (simp_all add: readCaught_def)

lemma fetchWithRetry_trace:
  "\<exists>evs. ls_trace (snd (snd (fetchWithRetry env rq attempt lastError s))) = ls_trace s @ evs
         \<and> (\<forall>ev \<in> set evs. ev = Fetch rq FETCH_TIMEOUT \<or> (\<exists>n. ev = Sleep n))
         \<and> ls_messages (snd (snd (fetchWithRetry env rq attempt lastError s))) = ls_messages s"
proof (induction env rq attempt lastError s rule: fetchWithRetry.induct)
  case (1 env rq attempt lastError s)
  show ?case
  proof (cases "attempt \<le> MAX_RETRIES")
    case False
    then show ?thesis by (subst fetchWithRetry.simps, subst (2) fetchWithRetry.simps) simp
  next
    case True
    let ?s1 = "(emit (Fetch rq FETCH_TIMEOUT) s)\<lparr>ls_fetches := Suc (ls_fetches s)\<rparr>"
    show ?thesis
    proof (cases "fetch env (ls_fetches s) rq")
      case (FetchResponse r)
      with True have "fetchWithRetry env rq attempt lastError s = (Inr (Some r), lastError, ?s1)"
        by (subst fetchWithRetry.simps) (simp add: Let_def)
      then show ?thesis by (simp add: emit_def)
    next
      case (FetchRejected e)
      show ?thesis
      proof (cases "readCaught (node env) e ''name''")
      case (Some typeError)
      with True FetchRejected
      have "fetchWithRetry env rq attempt lastError s = (Inl typeError, Some e, ?s1)"
        by (subst fetchWithRetry.simps) (simp add: Let_def)
      then show ?thesis by (simp add: emit_def)
      next
      case None
      let ?s2 = "if attempt < MAX_RETRIES then emit (Sleep (2 ^ attempt * 1000)) ?s1 else ?s1"
      from True FetchRejected None have eq: "fetchWithRetry env rq attempt lastError s
           = fetchWithRetry env rq (Suc attempt) (Some e) ?s2"
        by (subst fetchWithRetry.simps) (simp add: Let_def)
      from "1.IH"[OF True refl FetchRejected None] obtain evs where
        evs: "ls_trace (snd (snd (fetchWithRetry env rq (Suc attempt) (Some e) ?s2))) = ls_trace ?s2 @ evs"
             "\<forall>ev \<in> set evs. ev = Fetch rq FETCH_TIMEOUT \<or> (\<exists>n. ev = Sleep n)"
             "ls_messages (snd (snd (fetchWithRetry env rq (Suc attempt) (Some e) ?s2))) = ls_messages ?s2"
        by blast
      obtain pre where pre: "ls_trace ?s2 = ls_trace s @ pre"
          "\<forall>ev \<in> set pre. ev = Fetch rq FETCH_TIMEOUT \<or> (\<exists>n. ev = Sleep n)"
          "ls_messages ?s2 = ls_messages s"
        by (cases "attempt < MAX_RETRIES") (auto simp: emit_def)
      have "ls_trace (snd (snd (fetchWithRetry env rq attempt lastError s))) = ls_trace s @ (pre @ evs)"
        using eq evs(1) pre(1) by simp
      moreover have "\<forall>ev \<in> set (pre @ evs). ev = Fetch rq FETCH_TIMEOUT \<or> (\<exists>n. ev = Sleep n)"
        using evs(2) pre(2) by auto
      moreover have "ls_messages (snd (snd (fetchWithRetry env rq attempt lastError s))) = ls_messages s"
        using eq evs(3) pre(3) by simp
      ultimately show ?thesis by blast
      qed
    qed
  qed
qed

text \<open>
  Three rejections in a row, none of them \<open>null\<close> or \<open>undefined\<close>: three attempts,
  a wait of 2s and one of 4s.
\<close>

lemma fetchWithRetry_all_rejected:
  assumes "\<And>k. fetch env k rq = FetchRejected (err k)"
    and "\<And>k. readCaught (node env) (err k) ''name'' = None"
  shows "fetchWithRetry env rq 1 None s
          = (Inr None, Some (err (ls_fetches s + 2)),
             s\<lparr>ls_trace := ls_trace s @ [Fetch rq FETCH_TIMEOUT, Sleep 2000, Fetch rq FETCH_TIMEOUT,
                                          Sleep 4000, Fetch rq FETCH_TIMEOUT],
               ls_fetches := ls_fetches s + 3\<rparr>)"
proof -
  have a4: "fetchWithRetry env rq 4 le t = (Inr None, le, t)" for le t
    by (subst fetchWithRetry.simps) (simp add: MAX_RETRIES_def)
  have a3: "fetchWithRetry env rq 3 le t
       = (Inr None, Some (err (ls_fetches t)),
          (emit (Fetch rq FETCH_TIMEOUT) t)\<lparr>ls_fetches := Suc (ls_fetches t)\<rparr>)" for le t
    using a4 by (subst fetchWithRetry.simps) (simp add: MAX_RETRIES_def assms Let_def)
  have a2: "fetchWithRetry env rq 2 le t
       = fetchWithRetry env rq 3 (Some (err (ls_fetches t)))
           (emit (Sleep 4000) ((emit (Fetch rq FETCH_TIMEOUT) t)\<lparr>ls_fetches := Suc (ls_fetches t)\<rparr>))" for le t
    by (subst fetchWithRetry.simps) (simp add: MAX_RETRIES_def assms Let_def)
  have a1: "fetchWithRetry env rq 1 le t
       = fetchWithRetry env rq 2 (Some (err (ls_fetches t)))
           (emit (Sleep 2000) ((emit (Fetch rq FETCH_TIMEOUT) t)\<lparr>ls_fetches := Suc (ls_fetches t)\<rparr>))" for le t
    by (subst fetchWithRetry.simps) (simp add: MAX_RETRIES_def assms Let_def numeral_2_eq_2[symmetric])
  show ?thesis
    by (subst a1, subst a2, subst a3) (simp add: emit_def)
qed

lemma processLine_trace:
  "\<exists>evs. ls_trace (snd (processLine env st line)) = ls_trace (snd st) @ evs
         \<and> (\<forall>ev \<in> set evs. \<exists>m. ev = Yield m)
         \<and> ls_messages (snd (processLine env st line)) = ls_messages (snd st)"
  by (auto simp: processLine_def Let_def emit_def split: parsed_line.splits option.splits)

lemma foldl_processLine_trace:
  "\<exists>evs. ls_trace (snd (foldl (processLine env) st ls)) = ls_trace (snd st) @ evs
         \<and> (\<forall>ev \<in> set evs. \<exists>m. ev = Yield m)
         \<and> ls_messages (snd (foldl (processLine env) st ls)) = ls_messages (snd st)"
proof (induction ls arbitrary: st)
  case Nil
  then show ?case by simp
next
  case (Cons l ls)
  from processLine_trace[of env st l] obtain e1 where
    e1: "ls_trace (snd (processLine env st l)) = ls_trace (snd st) @ e1"
        "\<forall>ev \<in> set e1. \<exists>m. ev = Yield m"
        "ls_messages (snd (processLine env st l)) = ls_messages (snd st)" by blast
  from Cons.IH[of "processLine env st l"] obtain e2 where
    e2: "ls_trace (snd (foldl (processLine env) (processLine env st l) ls))
           = ls_trace (snd (processLine env st l)) @ e2"
        "\<forall>ev \<in> set e2. \<exists>m. ev = Yield m"
        "ls_messages (snd (foldl (processLine env) (processLine env st l) ls))
           = ls_messages (snd (processLine env st l))" by blast
  have "ls_trace (snd (foldl (processLine env) st (l # ls))) = ls_trace (snd st) @ (e1 @ e2)"
    using e1(1) e2(1) by simp
  moreover have "\<forall>ev \<in> set (e1 @ e2). \<exists>m. ev = Yield m" using e1(2) e2(2) by auto
  moreover have "ls_messages (snd (foldl (processLine env) st (l # ls))) = ls_messages (snd st)"
    using e1(3) e2(3) by simp
  ultimately show ?case by blast
qed

lemma readStream_trace:
  "\<exists>evs. ls_trace (snd (snd (readStream env ab chunks ts s))) = ls_trace s @ evs
         \<and> (\<forall>ev \<in> set evs. \<exists>m. ev = Yield m)
         \<and> ls_messages (snd (snd (readStream env ab chunks ts s))) = ls_messages s"
proof (induction env ab chunks ts s rule: readStream.induct)
  case (1 env abortable ts s)
  then show ?case by simp
next
  case (2 env abortable e rest ts s)
  then show ?case by simp
next
  case (3 env abortable v rest ts s)
  let ?s0 = "if abortable then s\<lparr>ls_abort_reads := Suc (ls_abort_reads s)\<rparr> else s"
  show ?case
  proof (cases "abortable \<and> aborted env (ls_abort_reads s)")
    case True
    then show ?thesis by (simp add: emit_def)
  next
    case False
    let ?lines = "split_nl (ts_buffer ts @ v)"
    let ?st1 = "foldl (processLine env) (ts\<lparr>ts_buffer := last ?lines\<rparr>, ?s0) (butlast ?lines)"
    from False have eq: "readStream env abortable (Inr v # rest) ts s
             = readStream env abortable rest (fst ?st1) (snd ?st1)"
      by (auto simp add: Let_def)
    from foldl_processLine_trace[of env "(ts\<lparr>ts_buffer := last ?lines\<rparr>, ?s0)" "butlast ?lines"]
    obtain e1 where e1: "ls_trace (snd ?st1) = ls_trace ?s0 @ e1"
        "\<forall>ev \<in> set e1. \<exists>m. ev = Yield m" "ls_messages (snd ?st1) = ls_messages ?s0"
      by auto
    from "3.IH"[OF refl refl False refl refl] obtain e2 where
      e2: "ls_trace (snd (snd (readStream env abortable rest (fst ?st1) (snd ?st1))))
             = ls_trace (snd ?st1) @ e2"
          "\<forall>ev \<in> set e2. \<exists>m. ev = Yield m"
          "ls_messages (snd (snd (readStream env abortable rest (fst ?st1) (snd ?st1))))
             = ls_messages (snd ?st1)" by blast
    have s0: "ls_trace ?s0 = ls_trace s" "ls_messages ?s0 = ls_messages s" by simp_all
    have "ls_trace (snd (snd (readStream env abortable (Inr v # rest) ts s))) = ls_trace s @ (e1 @ e2)"
      using eq e1(1) e2(1) s0(1) by simp
    moreover have "\<forall>ev \<in> set (e1 @ e2). \<exists>m. ev = Yield m" using e1(2) e2(2) by auto
    moreover have "ls_messages (snd (snd (readStream env abortable (Inr v # rest) ts s))) = ls_messages s"
      using eq e1(3) e2(3) s0(2) by simp
    ultimately show ?thesis by blast
  qed
qed

lemma runToolCalls_effect:
  "\<exists>evs more. ls_trace (snd (runToolCalls env conns wd calls s)) = ls_trace s @ evs
         \<and> (\<forall>rq t. Fetch rq t \<notin> set evs)
         \<and> executed evs
             = map (\<lambda>tc. (tc_id tc, tc_name tc, parseToolInput env (tc_arguments tc), wd)) calls
         \<and> ls_messages (snd (runToolCalls env conns wd calls s)) = ls_messages s @ more
         \<and> map msg_tool_call_id more = map (\<lambda>tc. Some (tc_id tc)) calls
         \<and> (\<forall>m \<in> set more. msg_role m = ''tool'')
         \<and> fst (runToolCalls env conns wd calls s) = Next"
proof (induction calls arbitrary: s)
  case Nil
  then show ?case by simp
next
  case (Cons tc rest)
  let ?inp = "parseToolInput env (tc_arguments tc)"
  let ?s2 = "emit (Execute (tc_id tc) (tc_name tc) ?inp wd)
               (emit (Yield (AssistantToolUse (tc_id tc) (tc_name tc) ?inp)) s)"
  obtain r w1 where
    ex: "executeTool (node env) conns (tc_name tc) ?inp wd (ls_world ?s2) = (Inr r, w1)"
    using executeTool_returns by blast
  let ?s3 = "?s2\<lparr>ls_world := w1,
                 ls_messages := ls_messages ?s2 @ [tool_message (tc_id tc) (resultText r)]\<rparr>"
  have eq: "runToolCalls env conns wd (tc # rest) s = runToolCalls env conns wd rest ?s3"
    using ex by (simp add: Let_def)
  from Cons.IH[of ?s3] obtain evs more where
    ih: "ls_trace (snd (runToolCalls env conns wd rest ?s3)) = ls_trace ?s3 @ evs"
        "\<forall>rq t. Fetch rq t \<notin> set evs"
        "executed evs
           = map (\<lambda>tc. (tc_id tc, tc_name tc, parseToolInput env (tc_arguments tc), wd)) rest"
        "ls_messages (snd (runToolCalls env conns wd rest ?s3)) = ls_messages ?s3 @ more"
        "map msg_tool_call_id more = map (\<lambda>tc. Some (tc_id tc)) rest"
        "\<forall>m \<in> set more. msg_role m = ''tool''"
        "fst (runToolCalls env conns wd rest ?s3) = Next" by blast
  let ?evs = "[Yield (AssistantToolUse (tc_id tc) (tc_name tc) ?inp),
               Execute (tc_id tc) (tc_name tc) ?inp wd] @ evs"
  let ?more = "tool_message (tc_id tc) (resultText r) # more"
  have "ls_trace (snd (runToolCalls env conns wd (tc # rest) s)) = ls_trace s @ ?evs"
    using eq ih(1) by (simp add: emit_def)
  moreover have "\<forall>rq t. Fetch rq t \<notin> set ?evs" using ih(2) by simp
  moreover have "executed ?evs
      = map (\<lambda>tc. (tc_id tc, tc_name tc, parseToolInput env (tc_arguments tc), wd)) (tc # rest)"
    using ih(3) by simp
  moreover have "ls_messages (snd (runToolCalls env conns wd (tc # rest) s)) = ls_messages s @ ?more"
    using eq ih(4) by (simp add: emit_def)
  moreover have "map msg_tool_call_id ?more = map (\<lambda>tc. Some (tc_id tc)) (tc # rest)"
    using ih(5) by (simp add: tool_message_def)
  moreover have "\<forall>m \<in> set ?more. msg_role m = ''tool''"
    using ih(6) by (simp add: tool_message_def)
  moreover have "fst (runToolCalls env conns wd (tc # rest) s) = Next" using eq ih(7) by simp
  ultimately show ?case by blast
qed

lemma turn_okI:
  assumes "ls_trace s' = ls_trace s @ evs"
    and "\<And>rq t. Fetch rq t \<in> set evs \<Longrightarrow> rq_messages rq = trimHistory (ls_messages s) \<and> t = FETCH_TIMEOUT"
    and "ls_messages s' = ls_messages s \<or> (\<exists>more. ls_messages s' = trimHistory (ls_messages s) @ more)"
  shows "turn_ok s s'"
proof -
  have "ls_messages s \<noteq> [] \<longrightarrow> ls_messages s' \<noteq> [] \<and> hd (ls_messages s') = hd (ls_messages s)"
    using assms(3) by (auto simp: trimHistory_Nil_iff hd_trimHistory)
  with assms(1,2) show ?thesis unfolding turn_ok_def by blast
qed

lemma turn_requests: "turn_ok s (snd (turn env c s))"
proof (cases "t_abortable c \<and> aborted env (ls_abort_reads s)")
  case True
  then have "snd (turn env c s)
      = emit (Yield (ErrorMessage ''Request aborted'')) (s\<lparr>ls_abort_reads := Suc (ls_abort_reads s)\<rparr>)"
    by (simp add: turn_def)
  then show ?thesis by (intro turn_okI[where evs = "[Yield (ErrorMessage ''Request aborted'')]"]) (simp_all add: emit_def)
next
  case False
  let ?s0 = "if t_abortable c then s\<lparr>ls_abort_reads := Suc (ls_abort_reads s)\<rparr> else s"
  let ?s1 = "?s0\<lparr>ls_messages := trimHistory (ls_messages ?s0)\<rparr>"
  let ?rq = "\<lparr>rq_url = t_useEndpoint c @ ''/completions'', rq_authorization = ''Bearer '' @ t_apiKey c,
              rq_model = t_model c, rq_messages = ls_messages ?s1, rq_tools = t_tools c\<rparr>"
  have s1: "ls_trace ?s1 = ls_trace s" "ls_messages ?s1 = trimHistory (ls_messages s)" by simp_all
  obtain resp lastError s2 where fw: "fetchWithRetry env ?rq 1 None ?s1 = (resp, lastError, s2)"
    by (cases "fetchWithRetry env ?rq 1 None ?s1") auto
  from fetchWithRetry_trace[of env ?rq 1 None ?s1] fw obtain e1 where
    e1: "ls_trace s2 = ls_trace s @ e1"
        "\<forall>ev \<in> set e1. ev = Fetch ?rq FETCH_TIMEOUT \<or> (\<exists>n. ev = Sleep n)"
        "ls_messages s2 = trimHistory (ls_messages s)"
    using s1 by auto
  have e1f: "rq_messages rq = trimHistory (ls_messages s) \<and> t = FETCH_TIMEOUT" if "Fetch rq t \<in> set e1" for rq t
    using e1(2) that s1(2) by auto
  have tdef: "turn env c s =
     (case (resp, lastError, s2) of
                 (Inl e, lastError, s2) \<Rightarrow> (Throw e, s2)
               | (Inr None, lastError, s2) \<Rightarrow>
                   (Return, emit (Yield (ErrorMessage (connection_failed lastError))) s2)
               | (Inr (Some resp), lastError, s2) \<Rightarrow>
                   if \<not> rs_ok resp then
                     (case rs_text resp of
                        Inl e \<Rightarrow> (Throw e, s2)
                      | Inr errorText \<Rightarrow>
                          (Return,
                           emit (Yield (ErrorMessage (''Z.ai API error ('' @ show_nat (rs_status resp)
                                                      @ ''): '' @ errorText))) s2))
                   else
                     (case rs_body resp of
                        None \<Rightarrow>
                          (Return, emit (Yield (ErrorMessage ''Failed to read response stream'')) s2)
                      | Some chunks \<Rightarrow>
                          (case readStream env (t_abortable c) chunks
                                  \<lparr>ts_buffer = [], ts_turnContent = [], ts_turnToolCalls = []\<rparr> s2 of
                             (Next, ts, s3) \<Rightarrow>
                               (let validToolCalls =
                                      filter (\<lambda>tc. tc_id tc \<noteq> [] \<and> tc_name tc \<noteq> [])
                                        (present (ts_turnToolCalls ts))
                                in if validToolCalls = [] then (Break, s3)
                                   else runToolCalls env (t_conns c) (t_workingDir c) validToolCalls
                                          (s3\<lparr>ls_messages := ls_messages s3
                                                @ [assistant_message (ts_turnContent ts) validToolCalls]\<rparr>))
                           | (fl, ts, s3) \<Rightarrow> (fl, s3))))"
    using False fw unfolding turn_def Let_def by auto
  show ?thesis
  proof (cases "\<exists>r. resp = Inr (Some r)")
    case False
    show ?thesis
    proof (cases resp)
      case (Inl e)
      then have "snd (turn env c s) = s2" by (simp add: tdef)
      then show ?thesis using e1 e1f by (intro turn_okI[where evs = e1]) auto
    next
      case (Inr v)
      with False have "resp = Inr None" by (cases v) auto
      then have "snd (turn env c s) = emit (Yield (ErrorMessage (connection_failed lastError))) s2"
        by (simp add: tdef)
      then show ?thesis
        using e1 e1f
        by (intro turn_okI[where evs = "e1 @ [Yield (ErrorMessage (connection_failed lastError))]"])
           (auto simp: emit_def)
    qed
  next
    case True
    then obtain r where Some: "resp = Inr (Some r)" by blast
    show ?thesis
    proof (cases "rs_ok r")
      case False
      show ?thesis
      proof (cases "rs_text r")
        case (Inl e)
        with Some False have "snd (turn env c s) = s2" by (simp add: tdef)
        then show ?thesis using e1 e1f by (intro turn_okI[where evs = e1]) auto
      next
        case (Inr errorText)
        with Some False have "snd (turn env c s)
           = emit (Yield (ErrorMessage (''Z.ai API error ('' @ show_nat (rs_status r) @ ''): '' @ errorText))) s2"
          by (simp add: tdef)
        then show ?thesis using e1 e1f
          by (intro turn_okI[where evs = "e1 @ [Yield (ErrorMessage (''Z.ai API error ('' @ show_nat (rs_status r) @ ''): '' @ errorText))]"])
             (auto simp: emit_def)
      qed
    next
      case True
      show ?thesis
      proof (cases "rs_body r")
        case None
        with Some True have "snd (turn env c s) = emit (Yield (ErrorMessage ''Failed to read response stream'')) s2"
          by (simp add: tdef)
        then show ?thesis using e1 e1f
          by (intro turn_okI[where evs = "e1 @ [Yield (ErrorMessage ''Failed to read response stream'')]"])
             (auto simp: emit_def)
      next
        case (Some chunks)
        let ?ts0 = "\<lparr>ts_buffer = [], ts_turnContent = [], ts_turnToolCalls = []\<rparr>"
        obtain fl ts s3 where rs: "readStream env (t_abortable c) chunks ?ts0 s2 = (fl, ts, s3)"
          by (cases "readStream env (t_abortable c) chunks ?ts0 s2") auto
        from readStream_trace[of env "t_abortable c" chunks ?ts0 s2] rs obtain e2 where
          e2: "ls_trace s3 = ls_trace s2 @ e2" "\<forall>ev \<in> set e2. \<exists>m. ev = Yield m"
              "ls_messages s3 = ls_messages s2" by auto
        have e12: "ls_trace s3 = ls_trace s @ (e1 @ e2)" using e1(1) e2(1) by simp
        have e12f: "rq_messages rq = trimHistory (ls_messages s) \<and> t = FETCH_TIMEOUT"
          if "Fetch rq t \<in> set (e1 @ e2)" for rq t
          using that e1f e2(2) by auto
        let ?valid = "filter (\<lambda>tc. tc_id tc \<noteq> [] \<and> tc_name tc \<noteq> []) (present (ts_turnToolCalls ts))"
        let ?s4 = "s3\<lparr>ls_messages := ls_messages s3 @ [assistant_message (ts_turnContent ts) ?valid]\<rparr>"
        show ?thesis
        proof (cases "fl = Next \<and> ?valid \<noteq> []")
          case False
          then have "snd (turn env c s) = s3"
            using \<open>resp = Inr (Some r)\<close> True Some rs by (cases fl) (auto simp: tdef Let_def)
          then show ?thesis using e12 e12f e2(3) e1(3)
            by (intro turn_okI[where evs = "e1 @ e2"]) auto
        next
          case run: True
          then have t: "turn env c s = runToolCalls env (t_conns c) (t_workingDir c) ?valid ?s4"
            using \<open>resp = Inr (Some r)\<close> True Some rs by (auto simp: tdef Let_def)
          from runToolCalls_effect[of env "t_conns c" "t_workingDir c" ?valid ?s4] obtain e3 more where
            e3: "ls_trace (snd (runToolCalls env (t_conns c) (t_workingDir c) ?valid ?s4)) = ls_trace ?s4 @ e3"
                "\<forall>rq t. Fetch rq t \<notin> set e3"
                "ls_messages (snd (runToolCalls env (t_conns c) (t_workingDir c) ?valid ?s4)) = ls_messages ?s4 @ more"
            by blast
          have "ls_trace (snd (turn env c s)) = ls_trace s @ (e1 @ e2 @ e3)"
            using t e3(1) e12 by simp
          moreover have "rq_messages rq = trimHistory (ls_messages s) \<and> t = FETCH_TIMEOUT"
            if "Fetch rq t \<in> set (e1 @ e2 @ e3)" for rq t
            using that e12f e3(2) by auto
          moreover have "ls_messages (snd (turn env c s))
               = trimHistory (ls_messages s) @ ([assistant_message (ts_turnContent ts) ?valid] @ more)"
            using t e3(3) e2(3) e1(3) by simp
          ultimately show ?thesis by (intro turn_okI[where evs = "e1 @ e2 @ e3"]) blast+
        qed
      qed
    qed
  qed
qed

lemma agentLoop_requests:
  assumes "ls_messages s \<noteq> []"
  shows "\<exists>evs. ls_trace (snd (agentLoop env c maxTurns turnCount s)) = ls_trace s @ evs
           \<and> (\<forall>rq \<in> set (requests evs). length (rq_messages rq) \<le> 42 \<and> rq_messages rq \<noteq> []
                  \<and> hd (rq_messages rq) = hd (ls_messages s))
           \<and> ls_messages (snd (agentLoop env c maxTurns turnCount s)) \<noteq> []
           \<and> hd (ls_messages (snd (agentLoop env c maxTurns turnCount s))) = hd (ls_messages s)"
  using assms
proof (induction env c maxTurns turnCount s rule: agentLoop.induct)
  case (1 env c maxTurns turnCount s)
  show ?case
  proof (cases "turnCount < maxTurns")
    case False
    then have "agentLoop env c maxTurns turnCount s = (Break, s)"
      by (subst agentLoop.simps) simp
    then show ?thesis using "1.prems" by simp
  next
    case True
    obtain fl s1 where t: "turn env c s = (fl, s1)" by (cases "turn env c s")
    from turn_requests[of s env c] t obtain e1 where
      e1: "ls_trace s1 = ls_trace s @ e1"
          "\<forall>rq t. Fetch rq t \<in> set e1 \<longrightarrow> rq_messages rq = trimHistory (ls_messages s) \<and> t = FETCH_TIMEOUT"
          "ls_messages s1 \<noteq> []" "hd (ls_messages s1) = hd (ls_messages s)"
      using "1.prems" unfolding turn_ok_def by auto
    have r1: "length (rq_messages rq) \<le> 42 \<and> rq_messages rq \<noteq> [] \<and> hd (rq_messages rq) = hd (ls_messages s)"
      if "rq \<in> set (requests e1)" for rq
    proof -
      from that e1(2) have "rq_messages rq = trimHistory (ls_messages s)"
        unfolding requests_set by blast
      then show ?thesis
        using "1.prems" by (simp add: length_trimHistory_le hd_trimHistory trimHistory_Nil_iff)
    qed
    show ?thesis
    proof (cases "fl = Next")
      case False
      then have "agentLoop env c maxTurns turnCount s = (fl, s1)"
        using True t by (subst agentLoop.simps) (cases fl; simp)
      then show ?thesis using e1 r1 by auto
    next
      case n: True
      then have eq: "agentLoop env c maxTurns turnCount s = agentLoop env c maxTurns (Suc turnCount) s1"
        using True t by (subst agentLoop.simps) simp
      from "1.IH"[OF True t[symmetric, unfolded n] _ e1(3)] obtain e2 where
        e2: "ls_trace (snd (agentLoop env c maxTurns (Suc turnCount) s1)) = ls_trace s1 @ e2"
            "\<forall>rq \<in> set (requests e2). length (rq_messages rq) \<le> 42 \<and> rq_messages rq \<noteq> []
                  \<and> hd (rq_messages rq) = hd (ls_messages s1)"
            "ls_messages (snd (agentLoop env c maxTurns (Suc turnCount) s1)) \<noteq> []"
            "hd (ls_messages (snd (agentLoop env c maxTurns (Suc turnCount) s1))) = hd (ls_messages s1)"
        by auto
      have "ls_trace (snd (agentLoop env c maxTurns turnCount s)) = ls_trace s @ (e1 @ e2)"
        using eq e1(1) e2(1) by simp
      moreover have "\<forall>rq \<in> set (requests (e1 @ e2)). length (rq_messages rq) \<le> 42 \<and> rq_messages rq \<noteq> []
                  \<and> hd (rq_messages rq) = hd (ls_messages s)"
        using r1 e2(2) e1(4) by (auto simp: requests_append)
      ultimately show ?thesis using eq e2(3,4) e1(4) by (intro exI[of _ "e1 @ e2"]) simp
    qed
  qed
qed

lemma turn_all_rejected:
  assumes "\<And>k. fetch env k (rq :: request) = FetchRejected (err k)"
    and "\<And>k. readCaught (node env) (err k) ''name'' = None"
    and "\<not> (t_abortable c \<and> aborted env (ls_abort_reads s))"
    and "rq = \<lparr>rq_url = t_useEndpoint c @ ''/completions'', rq_authorization = ''Bearer '' @ t_apiKey c,
              rq_model = t_model c, rq_messages = trimHistory (ls_messages s), rq_tools = t_tools c\<rparr>"
  shows "fst (turn env c s) = Return
       \<and> ls_trace (snd (turn env c s))
           = ls_trace s @ [Fetch rq FETCH_TIMEOUT, Sleep 2000, Fetch rq FETCH_TIMEOUT, Sleep 4000,
                           Fetch rq FETCH_TIMEOUT,
                           Yield (ErrorMessage (connection_failed (Some (err (ls_fetches s + 2)))))]"
proof -
  let ?s0 = "if t_abortable c then s\<lparr>ls_abort_reads := Suc (ls_abort_reads s)\<rparr> else s"
  let ?s1 = "?s0\<lparr>ls_messages := trimHistory (ls_messages ?s0)\<rparr>"
  have rq: "\<lparr>rq_url = t_useEndpoint c @ ''/completions'', rq_authorization = ''Bearer '' @ t_apiKey c,
              rq_model = t_model c, rq_messages = ls_messages ?s1, rq_tools = t_tools c\<rparr> = rq"
    using assms(4) by simp
  have s1: "ls_trace ?s1 = ls_trace s" "ls_fetches ?s1 = ls_fetches s" by simp_all
  note fw = fetchWithRetry_all_rejected[of env rq err ?s1, OF assms(1,2)]
  have "turn env c s =
     (case fetchWithRetry env rq 1 None ?s1 of
        (Inr None, lastError, s2) \<Rightarrow> (Return, emit (Yield (ErrorMessage (connection_failed lastError))) s2)
      | (other, lastError, s2) \<Rightarrow> undefined)"
    using assms(3) unfolding turn_def Let_def rq fw by auto
  then show ?thesis unfolding fw using s1 by (simp add: emit_def)
qed

lemma agentLoop_all_rejected:
  assumes "\<And>k. fetch env k (rq :: request) = FetchRejected (err k)"
    and "\<And>k. readCaught (node env) (err k) ''name'' = None"
    and "\<not> (t_abortable c \<and> aborted env (ls_abort_reads s))"
    and "rq = \<lparr>rq_url = t_useEndpoint c @ ''/completions'', rq_authorization = ''Bearer '' @ t_apiKey c,
              rq_model = t_model c, rq_messages = trimHistory (ls_messages s), rq_tools = t_tools c\<rparr>"
    and "0 < maxTurns"
  shows "fst (agentLoop env c maxTurns 0 s) = Return
       \<and> ls_trace (snd (agentLoop env c maxTurns 0 s))
           = ls_trace s @ [Fetch rq FETCH_TIMEOUT, Sleep 2000, Fetch rq FETCH_TIMEOUT, Sleep 4000,
                           Fetch rq FETCH_TIMEOUT,
                           Yield (ErrorMessage (connection_failed (Some (err (ls_fetches s + 2)))))]"
proof -
  obtain fl s1 where t: "turn env c s = (fl, s1)" by (cases "turn env c s")
  with turn_all_rejected[OF assms(1,2,3,4)] have fl: "fl = Return" by simp
  have "agentLoop env c maxTurns 0 s = (Return, s1)"
    using assms(5) t fl by (subst agentLoop.simps) simp
  then show ?thesis using turn_all_rejected[OF assms(1,2,3,4)] t by simp
qed

lemma executeQuery_all_rejected:
  assumes "mgr_inv m"
    and "getCredentials env = Inr (zai, zaiChat)"
    and "\<not> falsy_str (if falsy_str zai then zaiChat else zai)"
    and "getGlobalSettings env = None"
    and "\<forall>k rq. \<exists>e. fetch env k rq = FetchRejected e \<and> e \<noteq> JsNull \<and> e \<noteq> JsUndefined"
    and "\<not> (o_abortController opts \<and> aborted env 0)"
    and "o_maxTurns opts \<noteq> Some 0"
  shows "\<exists>rq e. fetch env 2 rq = FetchRejected e
           \<and> rq_messages rq = trimHistory (seedMessages (node env) opts)
           \<and> fst (executeQuery env opts m w) = Inr ()
           \<and> ls_trace (fst (snd (executeQuery env opts m w)))
               = [Fetch rq FETCH_TIMEOUT, Sleep 2000, Fetch rq FETCH_TIMEOUT, Sleep 4000,
                  Fetch rq FETCH_TIMEOUT, Yield (ErrorMessage (connection_failed (Some e)))]"
proof -
  let ?wd = "if falsy_str (o_cwd opts) then process_cwd env else the (o_cwd opts)"
  let ?init = "case o_mcpServers opts of
                    None \<Rightarrow> (Inr (), m)
                  | Some servers \<Rightarrow>
                      (if servers \<noteq> [] then initialize (mcp env) servers (mcp_order env) m
                       else (Inr (), m))"
  have init: "fst ?init = Inr ()"
    using initialize_never_rejects[OF assms(1)] by (auto split: option.splits)
  let ?conns = "connections (snd ?init)"
  let ?c = "turnConfig opts ?wd ?conns zai zaiChat"
  let ?s = "(initial_state w)\<lparr>ls_messages := seedMessages (node env) opts\<rparr>"
  define rq where "rq = \<lparr>rq_url = t_useEndpoint ?c @ ''/completions'',
              rq_authorization = ''Bearer '' @ t_apiKey ?c,
              rq_model = t_model ?c, rq_messages = trimHistory (ls_messages ?s), rq_tools = t_tools ?c\<rparr>"
  from assms(5) have "\<forall>k. \<exists>e. fetch env k rq = FetchRejected e \<and> e \<noteq> JsNull \<and> e \<noteq> JsUndefined"
    by blast
  then obtain err where err: "\<And>k. fetch env k rq = FetchRejected (err k)"
    and nn: "\<And>k. err k \<noteq> JsNull \<and> err k \<noteq> JsUndefined" by metis
  have rc: "readCaught (node env) (err k) ''name'' = None" for k
    using nn by (simp add: readCaught_None_iff)
  have na: "\<not> (t_abortable ?c \<and> aborted env (ls_abort_reads ?s))"
    using assms(6) by (simp add: turnConfig_def initial_state_def)
  have mt: "0 < (case o_maxTurns opts of None \<Rightarrow> 50 | Some n \<Rightarrow> n)"
    using assms(7) by (cases "o_maxTurns opts") auto
  define r where "r = agentLoop env ?c (case o_maxTurns opts of None \<Rightarrow> 50 | Some n \<Rightarrow> n) 0 ?s"
  note al = agentLoop_all_rejected[OF err rc na rq_def mt, folded r_def]
  have s0: "ls_trace ?s = []" "ls_fetches ?s = 0" by (simp_all add: initial_state_def)
  have body: "queryBody env opts ?wd ?conns (initial_state w) = finishQuery r"
    unfolding r_def using assms(2,3,4) by (auto simp: queryBody_def)
  have "finishQuery r = snd r" using al by (simp add: finishQuery_def)
  with body have body': "queryBody env opts ?wd ?conns (initial_state w) = snd r" by simp
  have tr: "ls_trace (queryBody env opts ?wd ?conns (initial_state w))
        = [Fetch rq FETCH_TIMEOUT, Sleep 2000, Fetch rq FETCH_TIMEOUT, Sleep 4000,
           Fetch rq FETCH_TIMEOUT, Yield (ErrorMessage (connection_failed (Some (err 2))))]"
    unfolding body' using al s0 by (simp add: numeral_2_eq_2)
  have ex: "executeQuery env opts m w
        = (Inr (), queryBody env opts ?wd ?conns (initial_state w), snd ?init)"
    using init unfolding executeQuery_def Let_def by (simp split: sum.splits)
  have "fetch env 2 rq = FetchRejected (err 2)" by (rule err)
  moreover have "rq_messages rq = trimHistory (seedMessages (node env) opts)"
    by (simp add: rq_def initial_state_def)
  ultimately show ?thesis using tr ex by (intro exI[of _ rq] exI[of _ "err 2"]) simp
qed

subsection \<open>History trimming\<close>

lemma agentLoop_trace:
  "\<exists>evs. ls_trace (snd (agentLoop env c maxTurns turnCount s)) = ls_trace s @ evs
         \<and> (\<forall>rq \<in> set (requests evs). length (rq_messages rq) \<le> 42)"
proof (induction env c maxTurns turnCount s rule: agentLoop.induct)
  case (1 env c maxTurns turnCount s)
  show ?case
  proof (cases "turnCount < maxTurns")
    case False
    then have "agentLoop env c maxTurns turnCount s = (Break, s)"
      by (subst agentLoop.simps) simp
    then show ?thesis by simp
  next
    case True
    obtain fl s1 where t: "turn env c s = (fl, s1)" by (cases "turn env c s")
    from turn_requests[of s env c] t obtain e1 where
      e1: "ls_trace s1 = ls_trace s @ e1"
          "\<forall>rq t. Fetch rq t \<in> set e1 \<longrightarrow> rq_messages rq = trimHistory (ls_messages s) \<and> t = FETCH_TIMEOUT"
      unfolding turn_ok_def by auto
    have r1: "length (rq_messages rq) \<le> 42" if "rq \<in> set (requests e1)" for rq
    proof -
      from that e1(2) have "rq_messages rq = trimHistory (ls_messages s)"
        unfolding requests_set by blast
      then show ?thesis by (simp add: length_trimHistory_le)
    qed
    show ?thesis
    proof (cases "fl = Next")
      case False
      then have "agentLoop env c maxTurns turnCount s = (fl, s1)"
        using True t by (subst agentLoop.simps) (cases fl; simp)
      then show ?thesis using e1 r1 by auto
    next
      case n: True
      then have eq: "agentLoop env c maxTurns turnCount s = agentLoop env c maxTurns (Suc turnCount) s1"
        using True t by (subst agentLoop.simps) simp
      from "1.IH"[OF True t[symmetric, unfolded n]] obtain e2 where
        e2: "ls_trace (snd (agentLoop env c maxTurns (Suc turnCount) s1)) = ls_trace s1 @ e2"
            "\<forall>rq \<in> set (requests e2). length (rq_messages rq) \<le> 42"
        by auto
      have "ls_trace (snd (agentLoop env c maxTurns turnCount s)) = ls_trace s @ (e1 @ e2)"
        using eq e1(1) e2(1) by simp
      moreover have "\<forall>rq \<in> set (requests (e1 @ e2)). length (rq_messages rq) \<le> 42"
        using r1 e2(2) by (auto simp: requests_append)
      ultimately show ?thesis by blast
    qed
  qed
qed

lemma requests_caught: "requests (ls_trace (caught e s)) = requests (ls_trace s)"
  by (cases e) (simp_all add: caught_def emit_def requests_append)

lemma requests_finishQuery: "requests (ls_trace (finishQuery r)) = requests (ls_trace (snd r))"
  by (cases "fst r") (simp_all add: finishQuery_def emit_def requests_append requests_caught)

text \<open>
  Every request of a run was sent by the loop, which starts from the seeded messages.
\<close>

lemma executeQuery_requests:
  assumes "rq \<in> set (requests (ls_trace (fst (snd (executeQuery env opts m w)))))"
  shows "length (rq_messages rq) \<le> 42
       \<and> (seedMessages (node env) opts \<noteq> []
            \<longrightarrow> hd (rq_messages rq) = hd (seedMessages (node env) opts))"
proof -
  let ?wd = "if falsy_str (o_cwd opts) then process_cwd env else the (o_cwd opts)"
  let ?init = "case o_mcpServers opts of
                    None \<Rightarrow> (Inr (), m)
                  | Some servers \<Rightarrow>
                      (if servers \<noteq> [] then initialize (mcp env) servers (mcp_order env) m
                       else (Inr (), m))"
  let ?conns = "connections (snd ?init)"
  let ?s = "(initial_state w)\<lparr>ls_messages := seedMessages (node env) opts\<rparr>"
  have e0: "requests (ls_trace (initial_state w)) = []" by (simp add: initial_state_def)
  have ex: "fst (snd (executeQuery env opts m w)) = initial_state w
          \<or> fst (snd (executeQuery env opts m w)) = queryBody env opts ?wd ?conns (initial_state w)"
    unfolding executeQuery_def Let_def by (simp split: sum.splits)
  have qb: "requests (ls_trace (queryBody env opts ?wd ?conns (initial_state w))) = []
          \<or> (\<exists>c n. requests (ls_trace (queryBody env opts ?wd ?conns (initial_state w)))
                     = requests (ls_trace (snd (agentLoop env c n 0 ?s))))"
    unfolding queryBody_def
    by (auto simp: requests_caught requests_finishQuery e0 emit_def requests_append
             split: sum.splits option.splits)
  from assms ex e0 qb obtain c n where
    a: "rq \<in> set (requests (ls_trace (snd (agentLoop env c n 0 ?s))))" by auto
  have t0: "ls_trace ?s = []" by (simp add: initial_state_def)
  from agentLoop_trace[of env c n 0 ?s] a t0 have len: "length (rq_messages rq) \<le> 42" by auto
  have "hd (rq_messages rq) = hd (seedMessages (node env) opts)"
    if ne: "seedMessages (node env) opts \<noteq> []"
  proof -
    from ne have "ls_messages ?s \<noteq> []" by simp
    from agentLoop_requests[OF this, of env c n 0] a t0 show ?thesis by auto
  qed
  with len show ?thesis by blast
qed

text \<open>With a system prompt, the seeded messages start with the system message.\<close>

lemma seedMessages_system:
  assumes "o_systemPrompt opts = Some sp" and "sp \<noteq> SPString []"
  shows "seedMessages env opts \<noteq> []
       \<and> hd (seedMessages env opts) = plain_message ''system'' (content_of (getSystemPromptText env sp))"
  using assms by (cases sp) (simp_all add: seedMessages_def content_of_def)

lemma seedMessages_no_system:
  "seedMessages test_env no_system_options
     = replicate 42 (plain_message ''user'' (Text ''again'')) @ [plain_message ''user'' (Text ''list files'')]"
  by (simp add: seedMessages_def no_system_options_def test_options_def convertToOpenAIMessage_def)

lemma seedMessages_long:
  "seedMessages test_env long_options
     = plain_message ''system'' (Text ''You are helpful'')
       # replicate 49 (plain_message ''user'' (Text ''again'')) @ [plain_message ''user'' (Text ''list files'')]"
  by (simp add: seedMessages_def long_options_def test_options_def convertToOpenAIMessage_def)

lemma show_nat_3: "show_nat MAX_RETRIES = ''3''"
  by code_simp

text \<open>A run against the endpoint that rejects every \<open>fetch\<close>: one request, sent three times.\<close>

lemma test_run_trace:
  assumes "o_abortController opts = False" and "o_maxTurns opts \<noteq> Some 0"
  shows "\<exists>rq. rq_messages rq = trimHistory (seedMessages test_env opts)
         \<and> ls_trace (fst (snd (executeQuery test_query_env opts new_mgr w)))
         = [Fetch rq FETCH_TIMEOUT, Sleep 2000, Fetch rq FETCH_TIMEOUT, Sleep 4000,
            Fetch rq FETCH_TIMEOUT,
            Yield (ErrorMessage (connection_failed (Some (JsError ''fetch failed''))))]"
proof -
  have "\<exists>rq e. fetch test_query_env 2 rq = FetchRejected e
           \<and> rq_messages rq = trimHistory (seedMessages (node test_query_env) opts)
           \<and> fst (executeQuery test_query_env opts new_mgr w) = Inr ()
           \<and> ls_trace (fst (snd (executeQuery test_query_env opts new_mgr w)))
               = [Fetch rq FETCH_TIMEOUT, Sleep 2000, Fetch rq FETCH_TIMEOUT, Sleep 4000,
                  Fetch rq FETCH_TIMEOUT, Yield (ErrorMessage (connection_failed (Some e)))]"
    by (rule executeQuery_all_rejected[OF mgr_inv_new, of _ "Some ''key''" None])
       (simp_all add: test_query_env_def falsy_str_def assms)
  then show ?thesis by (auto simp: test_query_env_def)
qed

text \<open>
  Claim C4, as stated: the message kept in front is the system message. Without a system
  prompt there is none: 42 messages of history and the prompt make 43 messages, every
  request carries 41 of them, and the first one is a \<open>user\<close> message.
\<close>

theorem first_message_kept_is_not_system:
  "length (seedMessages test_env no_system_options) = 43
   \<and> length (requests (ls_trace (fst (snd (executeQuery test_query_env no_system_options new_mgr
                                             (one_file ''/f'' ''abc'')))))) = 3
   \<and> length (rq_messages (hd (requests (ls_trace (fst (snd (executeQuery test_query_env
        no_system_options new_mgr (one_file ''/f'' ''abc''))))))))
       = 41
   \<and> msg_role (hd (rq_messages (hd (requests (ls_trace (fst (snd (executeQuery test_query_env
        no_system_options new_mgr (one_file ''/f'' ''abc'')))))))))
       = ''user''"
proof -
  have len: "length (seedMessages test_env no_system_options) = 43"
    by (simp add: seedMessages_no_system)
  have h: "hd (seedMessages test_env no_system_options) = plain_message ''user'' (Text ''again'')"
    by (simp add: seedMessages_no_system eval_nat_numeral)
  from test_run_trace[of no_system_options "one_file ''/f'' ''abc''"] obtain rq where
    rq: "rq_messages rq = trimHistory (seedMessages test_env no_system_options)"
    and tr: "ls_trace (fst (snd (executeQuery test_query_env no_system_options new_mgr (one_file ''/f'' ''abc''))))
         = [Fetch rq FETCH_TIMEOUT, Sleep 2000, Fetch rq FETCH_TIMEOUT, Sleep 4000,
            Fetch rq FETCH_TIMEOUT,
            Yield (ErrorMessage (connection_failed (Some (JsError ''fetch failed''))))]"
    by (auto simp: no_system_options_def test_options_def)
  have "length (rq_messages rq) = 41" using rq len by (simp add: length_trimHistory_long)
  moreover have "msg_role (hd (rq_messages rq)) = ''user''"
    using rq h by (simp add: hd_trimHistory plain_message_def)
  ultimately show ?thesis using len by (simp add: tr)
qed

text \<open>
  Claim C4, amended. A message list of more than 42 entries is trimmed to its first
  message followed by its last 40, which makes 41; in particular 51 messages trim to 41
  with the same first message; a list of at most 42 is left alone. Every request sent in
  a turn carries the trimmed list of the messages the turn started with. Every request of
  a run of \<open>executeQuery\<close> has at most 42 messages, and when a system prompt was given
  (other than the empty string) its first message is the system message.
\<close>

theorem history_trimmed_before_request:
  "(42 < length ms \<longrightarrow> trimHistory ms = hd ms # drop (length ms - 40) ms \<and> length (trimHistory ms) = 41)
   \<and> (length ms = 51 \<longrightarrow> length (trimHistory ms) = 41 \<and> hd (trimHistory ms) = hd ms)
   \<and> (length ms \<le> 42 \<longrightarrow> trimHistory ms = ms)
   \<and> (\<exists>evs. ls_trace (snd (turn env c s)) = ls_trace s @ evs
          \<and> (\<forall>rq \<in> set (requests evs). rq_messages rq = trimHistory (ls_messages s)))
   \<and> (\<forall>rq \<in> set (requests (ls_trace (fst (snd (executeQuery env opts m w))))).
          length (rq_messages rq) \<le> 42
          \<and> (\<forall>sp. o_systemPrompt opts = Some sp \<and> sp \<noteq> SPString []
                \<longrightarrow> hd (rq_messages rq)
                      = plain_message ''system'' (content_of (getSystemPromptText (node env) sp))))"
proof -
  have t: "\<exists>evs. ls_trace (snd (turn env c s)) = ls_trace s @ evs
          \<and> (\<forall>rq \<in> set (requests evs). rq_messages rq = trimHistory (ls_messages s))"
  proof -
    from turn_requests[of s env c] obtain evs where
      e: "ls_trace (snd (turn env c s)) = ls_trace s @ evs"
         "\<forall>rq t. Fetch rq t \<in> set evs \<longrightarrow> rq_messages rq = trimHistory (ls_messages s) \<and> t = FETCH_TIMEOUT"
      unfolding turn_ok_def by blast
    have "\<forall>rq \<in> set (requests evs). rq_messages rq = trimHistory (ls_messages s)"
      using e(2) by (auto simp: requests_set)
    with e(1) show ?thesis by blast
  qed
  have a: "length (rq_messages rq) \<le> 42
          \<and> (\<forall>sp. o_systemPrompt opts = Some sp \<and> sp \<noteq> SPString []
                \<longrightarrow> hd (rq_messages rq)
                      = plain_message ''system'' (content_of (getSystemPromptText (node env) sp)))"
    if "rq \<in> set (requests (ls_trace (fst (snd (executeQuery env opts m w)))))" for rq
    using executeQuery_requests[OF that] seedMessages_system[of opts _ "node env"] by metis
  show ?thesis
    using t a by (simp add: trimHistory_long length_trimHistory_long trimHistory_short hd_trimHistory)
qed

theorem history_trimmed_before_request_witness:
  "length (seedMessages test_env long_options) = 51
   \<and> map (\<lambda>rq. (length (rq_messages rq), hd (rq_messages rq)))
        (requests (ls_trace (fst (snd (executeQuery test_query_env long_options new_mgr
                                         (one_file ''/f'' ''abc''))))))
       = replicate 3 (41, plain_message ''system'' (Text ''You are helpful''))"
proof -
  let ?T = "ls_trace (fst (snd (executeQuery test_query_env long_options new_mgr (one_file ''/f'' ''abc''))))"
  have len: "length (seedMessages test_env long_options) = 51" by (simp add: seedMessages_long)
  have sp: "o_systemPrompt long_options = Some (SPString ''You are helpful'')"
    by (simp add: long_options_def test_options_def)
  note th0 = history_trimmed_before_request[of "seedMessages test_env long_options" test_query_env _ _
               long_options new_mgr "one_file ''/f'' ''abc''"]
  from th0 len have l41: "length (trimHistory (seedMessages test_env long_options)) = 41" by blast
  from th0 have hdr: "\<forall>rq \<in> set (requests ?T).
        (\<forall>sp. o_systemPrompt long_options = Some sp \<and> sp \<noteq> SPString []
                \<longrightarrow> hd (rq_messages rq)
                      = plain_message ''system'' (content_of (getSystemPromptText (node test_query_env) sp)))"
    by blast
  from test_run_trace[of long_options "one_file ''/f'' ''abc''"] obtain rq where
    rq: "rq_messages rq = trimHistory (seedMessages test_env long_options)"
    and tr: "?T = [Fetch rq FETCH_TIMEOUT, Sleep 2000, Fetch rq FETCH_TIMEOUT, Sleep 4000,
            Fetch rq FETCH_TIMEOUT,
            Yield (ErrorMessage (connection_failed (Some (JsError ''fetch failed''))))]"
    by (auto simp: long_options_def test_options_def)
  have rs: "requests ?T = [rq, rq, rq]" by (simp add: tr)
  from hdr rs sp have "hd (rq_messages rq) = plain_message ''system'' (Text ''You are helpful'')"
    by (simp add: content_of_def)
  with rq l41 rs len show ?thesis by (simp add: eval_nat_numeral)
qed

subsection \<open>Retry and backoff\<close>

text \<open>A rejection with \<open>null\<close> ends the retry loop at once, by a \<open>TypeError\<close>.\<close>

lemma fetchWithRetry_null_rejection:
  assumes "fetch env (ls_fetches s) rq = FetchRejected JsNull"
  shows "fetchWithRetry env rq 1 None s
          = (Inl (JsError (type_error_msg (node env) (NullRead ''name''))), Some JsNull,
             (emit (Fetch rq FETCH_TIMEOUT) s)\<lparr>ls_fetches := Suc (ls_fetches s)\<rparr>)"
  using assms by (subst fetchWithRetry.simps) (simp add: MAX_RETRIES_def readCaught_def Let_def)

text \<open>
  Claim C3, as stated: three attempts with waits of 2s, 4s and 8s between them. With an
  endpoint that rejects every \<open>fetch\<close>, the run waits 2s and 4s only; no wait of 8s
  occurs.
\<close>

theorem backoff_has_no_third_wait:
  "sleeps (ls_trace (fst (snd (executeQuery test_query_env test_options new_mgr (one_file ''/f'' ''abc'')))))
     = [2000, 4000]
   \<and> Sleep 8000 \<notin> set (ls_trace (fst (snd (executeQuery test_query_env test_options new_mgr
                                                (one_file ''/f'' ''abc'')))))"
proof -
  from test_run_trace[of test_options "one_file ''/f'' ''abc''"] obtain rq where
    "ls_trace (fst (snd (executeQuery test_query_env test_options new_mgr (one_file ''/f'' ''abc''))))
         = [Fetch rq FETCH_TIMEOUT, Sleep 2000, Fetch rq FETCH_TIMEOUT, Sleep 4000,
            Fetch rq FETCH_TIMEOUT,
            Yield (ErrorMessage (connection_failed (Some (JsError ''fetch failed''))))]"
    by (auto simp: test_options_def)
  then show ?thesis by simp
qed

text \<open>
  Claim C3, amended. Let the connection manager be in any state it can reach from a new
  one, let the credentials and the global settings be readable with an API key
  configured, let the caller not have cancelled before the first turn, and let at least
  one turn be allowed. If every \<open>fetch\<close> rejects, with a value other than \<open>null\<close> and
  \<open>undefined\<close>, then a run of \<open>executeQuery\<close> consists of exactly three attempts,
  each under the timeout of 120000 ms, with a wait of 2000 ms after the first and of
  4000 ms after the second and none after the third, and then of one terminal error event
  carrying the message of the last rejection; the generator itself ends normally.
\<close>

theorem retries_exhausted:
  assumes "getCredentials env = Inr (zai, zaiChat)"
    and "\<not> falsy_str (if falsy_str zai then zaiChat else zai)"
    and "getGlobalSettings env = None"
    and "\<forall>k rq. \<exists>e. fetch env k rq = FetchRejected e \<and> e \<noteq> JsNull \<and> e \<noteq> JsUndefined"
    and "\<not> (o_abortController opts \<and> aborted env 0)"
    and "o_maxTurns opts \<noteq> Some 0"
  shows "\<exists>rq e. fetch env 2 rq = FetchRejected e
           \<and> fst (executeQuery env opts (mgr_run menv evs new_mgr) w) = Inr ()
           \<and> ls_trace (fst (snd (executeQuery env opts (mgr_run menv evs new_mgr) w)))
               = [Fetch rq 120000, Sleep 2000, Fetch rq 120000, Sleep 4000, Fetch rq 120000,
                  Yield (ErrorMessage (''Z.ai API connection failed after 3 attempts: ''
                                       @ (if message_of e = [] then ''Unknown error''
                                          else message_of e)))]"
proof -
  have inv: "mgr_inv (mgr_run menv evs new_mgr)" using mgr_inv_new by (rule mgr_inv_run)
  from executeQuery_all_rejected[OF inv assms, of w] obtain rq e where
    "fetch env 2 rq = FetchRejected e"
    "fst (executeQuery env opts (mgr_run menv evs new_mgr) w) = Inr ()"
    "ls_trace (fst (snd (executeQuery env opts (mgr_run menv evs new_mgr) w)))
               = [Fetch rq FETCH_TIMEOUT, Sleep 2000, Fetch rq FETCH_TIMEOUT, Sleep 4000,
                  Fetch rq FETCH_TIMEOUT, Yield (ErrorMessage (connection_failed (Some e)))]"
    by blast
  then show ?thesis
    by (intro exI[of _ rq] exI[of _ e])
       (simp add: FETCH_TIMEOUT_def connection_failed_def show_nat_3 str_or_def)
qed

theorem retries_exhausted_witness:
  "length (requests (ls_trace (fst (snd (executeQuery test_query_env test_options new_mgr
                                          (one_file ''/f'' ''abc'')))))) = 3
   \<and> sleeps (ls_trace (fst (snd (executeQuery test_query_env test_options new_mgr
                                   (one_file ''/f'' ''abc''))))) = [2000, 4000]
   \<and> last (ls_trace (fst (snd (executeQuery test_query_env test_options new_mgr
                                 (one_file ''/f'' ''abc'')))))
       = Yield (ErrorMessage ''Z.ai API connection failed after 3 attempts: fetch failed'')"
proof -
  have m0: "mgr_run test_mcp_env [] new_mgr = new_mgr" by (simp add: mgr_run_def)
  have "\<exists>rq e. fetch test_query_env 2 rq = FetchRejected e
           \<and> fst (executeQuery test_query_env test_options (mgr_run test_mcp_env [] new_mgr)
                    (one_file ''/f'' ''abc'')) = Inr ()
           \<and> ls_trace (fst (snd (executeQuery test_query_env test_options
                                    (mgr_run test_mcp_env [] new_mgr) (one_file ''/f'' ''abc''))))
               = [Fetch rq 120000, Sleep 2000, Fetch rq 120000, Sleep 4000, Fetch rq 120000,
                  Yield (ErrorMessage (''Z.ai API connection failed after 3 attempts: ''
                                       @ (if message_of e = [] then ''Unknown error''
                                          else message_of e)))]"
    by (rule retries_exhausted[of _ "Some ''key''" None])
       (simp_all add: test_query_env_def test_options_def falsy_str_def)
  then obtain rq e where e: "fetch test_query_env 2 rq = FetchRejected e"
    and t: "ls_trace (fst (snd (executeQuery test_query_env test_options new_mgr (one_file ''/f'' ''abc''))))
               = [Fetch rq 120000, Sleep 2000, Fetch rq 120000, Sleep 4000, Fetch rq 120000,
                  Yield (ErrorMessage (''Z.ai API connection failed after 3 attempts: ''
                                       @ (if message_of e = [] then ''Unknown error''
                                          else message_of e)))]"
    unfolding m0 by blast
  from e have "e = JsError ''fetch failed''" by (simp add: test_query_env_def)
  with t show ?thesis by simp
qed

subsection \<open>Tool arguments\<close>



end
